theory Spec2Isabelle
  imports Main
begin

section \<open>The command execution engine of the shell\<close>

text \<open>
  The engine (\<^verbatim>\<open>initialize\<close>, \<^verbatim>\<open>execute_command\<close>, \<^verbatim>\<open>execute_sequence\<close>,
  \<^verbatim>\<open>execute_pipe\<close>, \<^verbatim>\<open>execute_redirect\<close>, \<^verbatim>\<open>run_command\<close>) is a C program whose
  whole behaviour is the sequence of system calls it makes. The embedding follows one
  process: every system call is a function on the state of that process, the results the
  kernel may choose (failure or success of \<^verbatim>\<open>fork\<close>, \<^verbatim>\<open>pipe\<close>, \<^verbatim>\<open>open\<close>, \<^verbatim>\<open>dup2\<close>,
  \<^verbatim>\<open>execvp\<close>, \<^verbatim>\<open>waitpid\<close>, \<^verbatim>\<open>chdir\<close>) are read from a list of answers carried in the
  state, and every call is appended to a trace. When \<^verbatim>\<open>fork\<close> answers 0 the process
  followed from there on is the child, exactly as the C text reads after
  \<^verbatim>\<open>if (pid == 0)\<close>. Memory (\<^verbatim>\<open>malloc\<close>, \<^verbatim>\<open>free\<close>) is not part of the state.

  The repository holds the engine twice. The later file, the one with
  \<^verbatim>\<open>execute_redirect\<close>, is the one embedded here. The earlier \<^verbatim>\<open>shell.c\<close> has the same
  \<^verbatim>\<open>initialize\<close>, \<^verbatim>\<open>execute_command\<close> and loops of \<^verbatim>\<open>execute_pipe\<close>; it differs in a test
  of the node type at the head of each executor, which \<^verbatim>\<open>run_command\<close> never lets fail,
  and in answering a redirection with \<^verbatim>\<open>not yet implemented\<close>.
\<close>

subsection \<open>The syntax tree\<close>

text \<open>
  Modelled from the spec: the redirection modes of \<^verbatim>\<open>parser/ast.h\<close>, a header that is
  not among the sources. The four modes are those the switch of \<^verbatim>\<open>execute_redirect\<close>
  names; \<open>REDIRECT_OTHER\<close> is any other value of the \<^verbatim>\<open>int\<close> field, for its
  \<^verbatim>\<open>default\<close> case.
\<close>

datatype redirect_mode =
  REDIRECT_INPUT | REDIRECT_OUTPUT | REDIRECT_APPEND | REDIRECT_DUP | REDIRECT_OTHER int

text \<open>
  Modelled from the spec: the node type \<^verbatim>\<open>node_t\<close> of \<^verbatim>\<open>parser/ast.h\<close>, with the kinds
  \<^verbatim>\<open>run_command\<close> dispatches on and the fields the executors read. A command has its
  program and its argument vector, and its argument count is the length of the vector.
  A pointer to a node that \<^verbatim>\<open>run_command\<close> tests against \<^verbatim>\<open>NULL\<close> is a \<open>node option\<close>;
  the parts of a pipe are dereferenced without a test and are nodes, and their number
  \<^verbatim>\<open>n_parts\<close> is the length of the list. A redirection carries its child, the target
  descriptor slot \<^verbatim>\<open>fd\<close> (negative when none was written), the mode, the target path
  and the source descriptor \<^verbatim>\<open>fd2\<close>. \<open>NODE_OTHER\<close> is any other value of the type
  field, for the \<^verbatim>\<open>default\<close> case of \<^verbatim>\<open>run_command\<close>.
\<close>

datatype node =
  NODE_COMMAND string "string list"
| NODE_SEQUENCE "node option" "node option"
| NODE_PIPE "node list"
| NODE_REDIRECT "node option" int redirect_mode string int
| NODE_SUBSHELL "node option"
| NODE_DETACH "node option"
| NODE_OTHER int

subsection \<open>The state of a process and the trace of its calls\<close>

text \<open>
  The signals the shell sets, their dispositions, the flags of \<^verbatim>\<open>open\<close>, and the calls
  as the trace records them, each with what the kernel returned where the code can see
  it.
\<close>

datatype signal_name = SIGINT | SIGQUIT | SIGTSTP

datatype disposition = SIG_DFL | SIG_IGN

datatype oflag = O_RDONLY | O_WRONLY | O_CREAT | O_TRUNC | O_APPEND

datatype event =
  Ev_signal signal_name disposition
| Ev_fork int
| Ev_pipe "(int \<times> int) option"
| Ev_close int
| Ev_dup2 int int int
| Ev_open string "oflag list" "nat option" int
| Ev_execvp string "string list"
| Ev_waitpid int int
| Ev_getenv string
| Ev_chdir string int
| Ev_perror string
| Ev_fprintf string "int list"

text \<open>
  How a function of the engine leaves the process: it returns to its caller, the
  process ends through \<^verbatim>\<open>exit\<close> with the status given, or the process image is
  replaced by a successful \<^verbatim>\<open>execvp\<close>.
\<close>

datatype outcome = Returned | Exited int | Execed string "string list"

text \<open>
  The state of the process followed: the trace, the answers the kernel has still to
  give, the open descriptors, the children not yet waited for, the dispositions of the
  three signals, the working directory, the value of \<^verbatim>\<open>HOME\<close> in the environment, and
  the global \<^verbatim>\<open>prompt\<close> of \<^verbatim>\<open>shell.h\<close>.
\<close>

record os_state =
  trace :: "event list"
  answers :: "int list"
  fds :: "int list"
  children :: "int list"
  sigs :: "signal_name \<Rightarrow> disposition"
  cwd :: string
  home :: "string option"
  prompt :: "string option"

definition STDIN_FILENO :: int where "STDIN_FILENO = 0"
definition STDOUT_FILENO :: int where "STDOUT_FILENO = 1"
definition STDERR_FILENO :: int where "STDERR_FILENO = 2"

definition log_event :: "event \<Rightarrow> os_state \<Rightarrow> os_state" where
  "log_event e s = s\<lparr>trace := trace s @ [e]\<rparr>"

text \<open>The next answer of the kernel; an exhausted list answers 0.\<close>

definition next_answer :: "os_state \<Rightarrow> int \<times> os_state" where
  "next_answer s =
     (case answers s of [] \<Rightarrow> (0, s) | a # as \<Rightarrow> (a, s\<lparr>answers := as\<rparr>))"

text \<open>The lowest descriptor number that is not open, as POSIX allocates it.\<close>

definition lowest_free :: "int list \<Rightarrow> int" where
  "lowest_free open_fds = hd (filter (\<lambda>k. k \<notin> set open_fds) [0 .. int (length open_fds)])"

subsection \<open>System calls\<close>

definition sys_signal :: "signal_name \<Rightarrow> disposition \<Rightarrow> os_state \<Rightarrow> os_state" where
  "sys_signal sg d s = log_event (Ev_signal sg d) (s\<lparr>sigs := (sigs s)(sg := d)\<rparr>)"

text \<open>
  \<^verbatim>\<open>fork\<close>: a negative answer is the failure, 0 makes the process followed the child
  (same descriptors, dispositions and directory, no children of its own), a positive
  answer is the pid of the new child in the parent.
\<close>

definition sys_fork :: "os_state \<Rightarrow> int \<times> os_state" where
  "sys_fork s =
     (let (a, s1) = next_answer s in
      if a < 0 then (- 1, log_event (Ev_fork (- 1)) s1)
      else if a = 0 then (0, log_event (Ev_fork 0) (s1\<lparr>children := []\<rparr>))
      else (a, log_event (Ev_fork a) (s1\<lparr>children := children s1 @ [a]\<rparr>)))"

definition sys_pipe :: "os_state \<Rightarrow> (int \<times> int) option \<times> os_state" where
  "sys_pipe s =
     (let (a, s1) = next_answer s in
      if a < 0 then (None, log_event (Ev_pipe None) s1)
      else
        let r = lowest_free (fds s1); w = lowest_free (r # fds s1) in
        (Some (r, w), log_event (Ev_pipe (Some (r, w))) (s1\<lparr>fds := w # r # fds s1\<rparr>)))"

definition sys_close :: "int \<Rightarrow> os_state \<Rightarrow> os_state" where
  "sys_close fd s = log_event (Ev_close fd) (s\<lparr>fds := removeAll fd (fds s)\<rparr>)"

text \<open>\<^verbatim>\<open>dup2\<close> fails on the kernel's answer or on a negative target; on success it
  returns the target, which is open from then on.\<close>

definition sys_dup2 :: "int \<Rightarrow> int \<Rightarrow> os_state \<Rightarrow> int \<times> os_state" where
  "sys_dup2 oldfd newfd s =
     (let (a, s1) = next_answer s in
      if a < 0 \<or> newfd < 0 then (- 1, log_event (Ev_dup2 oldfd newfd (- 1)) s1)
      else (newfd, log_event (Ev_dup2 oldfd newfd newfd)
              (s1\<lparr>fds := (if newfd \<in> set (fds s1) then fds s1 else newfd # fds s1)\<rparr>)))"

text \<open>\<^verbatim>\<open>open\<close> with its flags and, when it is given one, the creation mode.\<close>

definition sys_open :: "string \<Rightarrow> oflag list \<Rightarrow> nat option \<Rightarrow> os_state \<Rightarrow> int \<times> os_state" where
  "sys_open path flags perm s =
     (let (a, s1) = next_answer s in
      if a < 0 then (- 1, log_event (Ev_open path flags perm (- 1)) s1)
      else
        let fd = lowest_free (fds s1) in
        (fd, log_event (Ev_open path flags perm fd) (s1\<lparr>fds := fd # fds s1\<rparr>)))"

text \<open>\<^verbatim>\<open>execvp\<close> returns (here: \<open>False\<close>) only when it failed.\<close>

definition sys_execvp :: "string \<Rightarrow> string list \<Rightarrow> os_state \<Rightarrow> bool \<times> os_state" where
  "sys_execvp program argv s =
     (let (a, s1) = next_answer s in (0 \<le> a, log_event (Ev_execvp program argv) s1))"

definition sys_waitpid :: "int \<Rightarrow> os_state \<Rightarrow> int \<times> os_state" where
  "sys_waitpid pid s =
     (let (a, s1) = next_answer s in
      if a < 0 then (- 1, log_event (Ev_waitpid pid (- 1)) s1)
      else (pid, log_event (Ev_waitpid pid pid) (s1\<lparr>children := removeAll pid (children s1)\<rparr>)))"

definition sys_getenv_HOME :: "os_state \<Rightarrow> string option \<times> os_state" where
  "sys_getenv_HOME s = (home s, log_event (Ev_getenv ''HOME'') s)"

text \<open>The directory a path names: an absolute path itself, a relative one below the
  current directory.\<close>

definition resolve :: "string \<Rightarrow> string \<Rightarrow> string" where
  "resolve dir path = (if path \<noteq> [] \<and> hd path = CHR ''/'' then path else dir @ ''/'' @ path)"

definition sys_chdir :: "string \<Rightarrow> os_state \<Rightarrow> int \<times> os_state" where
  "sys_chdir path s =
     (let (a, s1) = next_answer s in
      if a < 0 then (- 1, log_event (Ev_chdir path (- 1)) s1)
      else (0, log_event (Ev_chdir path 0) (s1\<lparr>cwd := resolve (cwd s1) path\<rparr>)))"

definition sys_perror :: "string \<Rightarrow> os_state \<Rightarrow> os_state" where
  "sys_perror label s = log_event (Ev_perror label) s"

definition sys_fprintf_stderr :: "string \<Rightarrow> int list \<Rightarrow> os_state \<Rightarrow> os_state" where
  "sys_fprintf_stderr fmt args s = log_event (Ev_fprintf fmt args) s"

subsection \<open>\<^verbatim>\<open>atoi\<close>\<close>

text \<open>
  The C library's \<^verbatim>\<open>atoi\<close>, which is \<^verbatim>\<open>(int) strtol(str, NULL, 10)\<close>, with a 64-bit
  \<^verbatim>\<open>long\<close> and a 32-bit \<^verbatim>\<open>int\<close>. \<^verbatim>\<open>strtol\<close> skips white space, reads an optional
  sign and then the longest run of decimal digits (no digits give 0), and stops at
  \<^verbatim>\<open>LONG_MAX\<close> or \<^verbatim>\<open>LONG_MIN\<close> when the number is out of range. The conversion to
  \<^verbatim>\<open>int\<close> keeps the low 32 bits, read as a signed number. \<open>digits_value\<close> is the
  mathematical value of the run of digits.
\<close>

definition isspace :: "char \<Rightarrow> bool" where
  "isspace c = (c \<in> set [CHR '' '', CHR 0x09, CHR 0x0A, CHR 0x0B, CHR 0x0C, CHR 0x0D])"

definition isdigit :: "char \<Rightarrow> bool" where
  "isdigit c = (48 \<le> (of_char c :: nat) \<and> (of_char c :: nat) \<le> 57)"

fun digits_value :: "int \<Rightarrow> string \<Rightarrow> int" where
  "digits_value acc [] = acc"
| "digits_value acc (c # cs) =
     (if isdigit c then digits_value (acc * 10 + (of_char c - 48)) cs else acc)"

definition LONG_MAX :: int where "LONG_MAX = 2 ^ 63 - 1"
definition LONG_MIN :: int where "LONG_MIN = - (2 ^ 63)"

text \<open>\<^verbatim>\<open>strtol\<close> in base 10, its end pointer not asked for.\<close>

definition strtol :: "string \<Rightarrow> int" where
  "strtol str =
     (case dropWhile isspace str of
        [] \<Rightarrow> 0
      | c # cs \<Rightarrow>
          if c = CHR ''-'' then max LONG_MIN (- digits_value 0 cs)
          else if c = CHR ''+'' then min LONG_MAX (digits_value 0 cs)
          else min LONG_MAX (digits_value 0 (c # cs)))"

text \<open>The conversion of a \<^verbatim>\<open>long\<close> to \<^verbatim>\<open>int\<close>.\<close>

definition int_of_long :: "int \<Rightarrow> int" where
  "int_of_long x = (x + 2 ^ 31) mod 2 ^ 32 - 2 ^ 31"

definition atoi :: "string \<Rightarrow> int" where
  "atoi str = int_of_long (strtol str)"

subsection \<open>The engine\<close>

text \<open>\<^verbatim>\<open>initialize\<close>: the prompt is replaced when it is set, and the three signals are
  ignored.\<close>

definition initialize :: "os_state \<Rightarrow> os_state" where
  "initialize s =
     (let s0 = (if prompt s \<noteq> None then s\<lparr>prompt := Some ''vush$ ''\<rparr> else s);
          s1 = sys_signal SIGINT SIG_IGN s0;
          s2 = sys_signal SIGQUIT SIG_IGN s1
      in sys_signal SIGTSTP SIG_IGN s2)"

text \<open>\<^verbatim>\<open>execute_command\<close>; \<open>argc\<close> is the length of \<open>argv\<close>.\<close>

definition execute_command :: "string \<Rightarrow> string list \<Rightarrow> os_state \<Rightarrow> outcome \<times> os_state" where
  "execute_command program argv s =
     (let argc = int (length argv) in
      if program = ''exit'' then
        (let exit_code = (if argc > 1 then atoi (argv ! 1) else 0) in (Exited exit_code, s))
      else if program = ''cd'' then
        (if argc < 2 then
           (case sys_getenv_HOME s of
              (None, s1) \<Rightarrow> (Returned, sys_fprintf_stderr ''cd: HOME not set\<newline>'' [] s1)
            | (Some path, s1) \<Rightarrow>
                (let (rc, s2) = sys_chdir path s1 in
                 if rc < 0 then (Returned, sys_perror ''cd'' s2) else (Returned, s2)))
         else
           (let (rc, s2) = sys_chdir (argv ! 1) s in
            if rc < 0 then (Returned, sys_perror ''cd'' s2) else (Returned, s2)))
      else
        (let (pid, s1) = sys_fork s in
         if pid < 0 then (Returned, sys_perror ''fork'' s1)
         else if pid = 0 then
           (let s2 = sys_signal SIGINT SIG_DFL s1;
                s3 = sys_signal SIGQUIT SIG_DFL s2;
                s4 = sys_signal SIGTSTP SIG_DFL s3;
                (replaced, s5) = sys_execvp program argv s4
            in if replaced then (Execed program argv, s5)
               else (Exited 1, sys_perror program s5))
         else
           (let (rc, s2) = sys_waitpid pid s1 in (Returned, s2))))"

text \<open>The first loop of \<^verbatim>\<open>execute_pipe\<close>: \<open>k\<close> more pipes to create, \<open>pipes\<close> those made so
  far. \<open>None\<close> is the early return after a failed \<^verbatim>\<open>pipe\<close>.\<close>

fun create_pipes :: "nat \<Rightarrow> (int \<times> int) list \<Rightarrow> os_state \<Rightarrow> (int \<times> int) list option \<times> os_state" where
  "create_pipes 0 pipes s = (Some pipes, s)"
| "create_pipes (Suc k) pipes s =
     (case sys_pipe s of
        (None, s1) \<Rightarrow> (None, sys_perror ''pipe'' s1)
      | (Some p, s1) \<Rightarrow> create_pipes k (pipes @ [p]) s1)"

text \<open>The loop that closes both ends of every pipe.\<close>

fun close_pipes :: "(int \<times> int) list \<Rightarrow> os_state \<Rightarrow> os_state" where
  "close_pipes [] s = s"
| "close_pipes (p # ps) s = close_pipes ps (sys_close (snd p) (sys_close (fst p) s))"

text \<open>The loop that waits for every child of the pipeline; the result of \<^verbatim>\<open>waitpid\<close> is
  not looked at.\<close>

fun wait_all :: "int list \<Rightarrow> os_state \<Rightarrow> os_state" where
  "wait_all [] s = s"
| "wait_all (pid # pids) s = wait_all pids (snd (sys_waitpid pid s))"

text \<open>The wiring of the child of stage \<open>i\<close> in \<^verbatim>\<open>execute_pipe\<close>, before it runs its
  stage: the two \<^verbatim>\<open>dup2\<close> calls, whose results are not looked at, and the loop of
  closes.\<close>

definition wire_stage :: "(int \<times> int) list \<Rightarrow> nat \<Rightarrow> nat \<Rightarrow> os_state \<Rightarrow> os_state" where
  "wire_stage pipes n i s1 =
     (let s2 = (if i > 0 then snd (sys_dup2 (fst (pipes ! (i - 1))) STDIN_FILENO s1) else s1);
          s3 = (if i < n - 1 then snd (sys_dup2 (snd (pipes ! i)) STDOUT_FILENO s2) else s2)
      in close_pipes pipes s3)"

text \<open>The switch of \<^verbatim>\<open>execute_redirect\<close>, run in the wrapper child: \<open>Some status\<close> is
  the \<^verbatim>\<open>exit(status)\<close> of a failed case, \<open>None\<close> falls through to the wrapped node. The
  output and append cases are the same text but for the flags of \<^verbatim>\<open>open\<close>; they share
  \<open>redirect_to_file\<close>.\<close>

text \<open>The creation mode \<^verbatim>\<open>0644\<close>.\<close>

definition mode_0644 :: nat where
  "mode_0644 = 6 * 64 + 4 * 8 + 4"

definition redirect_to_file :: "oflag list \<Rightarrow> int \<Rightarrow> string \<Rightarrow> os_state \<Rightarrow> int option \<times> os_state" where
  "redirect_to_file flags fd target s =
     (let (file_fd, s1) = sys_open target flags (Some mode_0644) s in
      if file_fd < 0 then (Some 1, sys_perror target s1)
      else
        let target_fd = (if fd < 0 then STDOUT_FILENO else fd);
            (rc, s2) = sys_dup2 file_fd target_fd s1
        in
          if rc < 0 then (Some 1, sys_perror ''dup2'' s2)
          else if fd < 0 then
            (let (rc2, s3) = sys_dup2 file_fd STDERR_FILENO s2 in
             if rc2 < 0 then (Some 1, sys_perror ''dup2'' s3)
             else (None, sys_close file_fd s3))
          else (None, sys_close file_fd s2))"

fun redirect_switch :: "redirect_mode \<Rightarrow> int \<Rightarrow> string \<Rightarrow> int \<Rightarrow> os_state \<Rightarrow> int option \<times> os_state" where
  "redirect_switch REDIRECT_INPUT fd target fd2 s =
     (let (file_fd, s1) = sys_open target [O_RDONLY] None s in
      if file_fd < 0 then (Some 1, sys_perror target s1)
      else
        let (rc, s2) = sys_dup2 file_fd STDIN_FILENO s1 in
        if rc < 0 then (Some 1, sys_perror ''dup2'' s2)
        else (None, sys_close file_fd s2))"
| "redirect_switch REDIRECT_OUTPUT fd target fd2 s =
     redirect_to_file [O_WRONLY, O_CREAT, O_TRUNC] fd target s"
| "redirect_switch REDIRECT_APPEND fd target fd2 s =
     redirect_to_file [O_WRONLY, O_CREAT, O_APPEND] fd target s"
| "redirect_switch REDIRECT_DUP fd target fd2 s =
     (let (rc, s1) = sys_dup2 fd2 fd s in
      if rc < 0 then (Some 1, sys_perror ''dup2'' s1) else (None, s1))"
| "redirect_switch (REDIRECT_OTHER m) fd target fd2 s =
     (Some 1, sys_fprintf_stderr ''Unknown redirect type: %d\<newline>'' [m] s)"

text \<open>
  The dispatch loop and the three executors that call it back; each executor takes the
  fields of the node that the C function reads through its pointer. \<open>fork_stages\<close> is the
  second loop of \<^verbatim>\<open>execute_pipe\<close>: \<open>n\<close> is \<^verbatim>\<open>n_parts\<close>, \<open>i\<close> the loop index, \<open>pids\<close> the
  pids stored so far, and the list argument the parts from index \<open>i\<close> on. In the child
  (\<open>pid = 0\<close>) the stage is wired by \<open>wire_stage\<close> and run; after the loop the parent closes the pipes and
  waits.
\<close>

function run_command :: "node option \<Rightarrow> os_state \<Rightarrow> outcome \<times> os_state"
  and execute_sequence :: "node option \<Rightarrow> node option \<Rightarrow> os_state \<Rightarrow> outcome \<times> os_state"
  and execute_pipe :: "node list \<Rightarrow> os_state \<Rightarrow> outcome \<times> os_state"
  and fork_stages :: "(int \<times> int) list \<Rightarrow> nat \<Rightarrow> nat \<Rightarrow> int list \<Rightarrow> node list \<Rightarrow> os_state \<Rightarrow> outcome \<times> os_state"
  and execute_redirect :: "node option \<Rightarrow> int \<Rightarrow> redirect_mode \<Rightarrow> string \<Rightarrow> int \<Rightarrow> os_state \<Rightarrow> outcome \<times> os_state"
where
  "run_command None s = (Returned, s)"
| "run_command (Some (NODE_COMMAND program argv)) s = execute_command program argv s"
| "run_command (Some (NODE_SEQUENCE first second)) s = execute_sequence first second s"
| "run_command (Some (NODE_PIPE parts)) s = execute_pipe parts s"
| "run_command (Some (NODE_REDIRECT child fd mode target fd2)) s =
     execute_redirect child fd mode target fd2 s"
| "run_command (Some (NODE_SUBSHELL child)) s =
     (Returned, sys_fprintf_stderr ''not yet implemented\<newline>'' [] s)"
| "run_command (Some (NODE_DETACH child)) s =
     (Returned, sys_fprintf_stderr ''not yet implemented\<newline>'' [] s)"
| "run_command (Some (NODE_OTHER t)) s =
     (Returned, sys_fprintf_stderr ''Unknown node type: %d\<newline>'' [t] s)"

| "execute_sequence first second s =
     (case run_command first s of
        (Returned, s1) \<Rightarrow> run_command second s1
      | (out, s1) \<Rightarrow> (out, s1))"

| "execute_pipe parts s =
     (let n = length parts in
      case create_pipes (n - 1) [] s of
        (None, s1) \<Rightarrow> (Returned, s1)
      | (Some pipes, s1) \<Rightarrow> fork_stages pipes n 0 [] parts s1)"

| "fork_stages pipes n i pids [] s =
     (let s1 = close_pipes pipes s in (Returned, wait_all pids s1))"
| "fork_stages pipes n i pids (cmd # rest) s =
     (let (pid, s1) = sys_fork s in
      if pid < 0 then (Returned, close_pipes pipes (sys_perror ''fork'' s1))
      else if pid = 0 then
        (let s4 = wire_stage pipes n i s1
         in case cmd of
              NODE_COMMAND program argv \<Rightarrow>
                (let (replaced, s5) = sys_execvp program argv s4 in
                 if replaced then (Execed program argv, s5)
                 else (Exited 1, sys_perror program s5))
            | _ \<Rightarrow>
                (case run_command (Some cmd) s4 of
                   (Returned, s5) \<Rightarrow> (Exited 0, s5)
                 | (out, s5) \<Rightarrow> (out, s5)))
      else fork_stages pipes n (Suc i) (pids @ [pid]) rest s1)"

| "execute_redirect child fd mode target fd2 s =
     (let (pid, s1) = sys_fork s in
      if pid < 0 then (Returned, sys_perror ''fork'' s1)
      else if pid = 0 then
        (case redirect_switch mode fd target fd2 s1 of
           (Some status, s2) \<Rightarrow> (Exited status, s2)
         | (None, s2) \<Rightarrow>
             (case run_command child s2 of
                (Returned, s3) \<Rightarrow> (Exited 0, s3)
              | (out, s3) \<Rightarrow> (out, s3)))
      else
        (let (rc, s2) = sys_waitpid pid s1 in
         if rc < 0 then (Returned, sys_perror ''waitpid'' s2) else (Returned, s2)))"
  by pat_completeness auto
termination
  by (relation "measure (\<lambda>x. case x of
      Inl (Inl (nd, s)) \<Rightarrow> 2 * size_option size nd
    | Inl (Inr (a, b, s)) \<Rightarrow> 2 * (size_option size a + size_option size b) + 1
    | Inr (Inl (ps, s)) \<Rightarrow> 2 * size_list size ps + 2
    | Inr (Inr (Inl (pp, n, i, pids, ps, s))) \<Rightarrow> 2 * size_list size ps + 1
    | Inr (Inr (Inr (c, fd, m, t, fd2, s))) \<Rightarrow> 2 * size_option size c + 1)") auto

subsection \<open>Vocabulary of the properties\<close>

text \<open>The shell as the read-eval loop first calls the engine: standard descriptors open,
  no children, \<^verbatim>\<open>initialize\<close> done, with the kernel's answers and the value of
  \<^verbatim>\<open>HOME\<close> given.\<close>

definition shell_start :: "int list \<Rightarrow> string option \<Rightarrow> os_state" where
  "shell_start as h = initialize \<lparr>trace = [], answers = as, fds = [0, 1, 2], children = [],
     sigs = (\<lambda>_. SIG_DFL), cwd = ''/srv'', home = h, prompt = None\<rparr>"

text \<open>A string from which \<^verbatim>\<open>atoi\<close> reads a number: after white space and an optional
  sign comes a digit.\<close>

definition starts_number :: "string \<Rightarrow> bool" where
  "starts_number str =
     (case dropWhile isspace str of
        [] \<Rightarrow> False
      | c # cs \<Rightarrow>
          if c = CHR ''-'' \<or> c = CHR ''+'' then (case cs of [] \<Rightarrow> False | d # _ \<Rightarrow> isdigit d)
          else isdigit c)"

text \<open>The decimal numeral of a natural number, without leading zeros.\<close>

definition digit_char :: "nat \<Rightarrow> char" where
  "digit_char d = ''0123456789'' ! d"

fun decimal :: "nat \<Rightarrow> string" where
  "decimal n = (if n < 10 then [digit_char n] else decimal (n div 10) @ [digit_char (n mod 10)])"

declare decimal.simps [simp del]

text \<open>A rest of the argument at which the run of digits ends: empty, or not starting
  with a digit.\<close>

definition ends_number :: "string \<Rightarrow> bool" where
  "ends_number rest = (case rest of [] \<Rightarrow> True | c # _ \<Rightarrow> \<not> isdigit c)"

text \<open>The next call of \<^verbatim>\<open>chdir\<close> succeeds.\<close>

definition chdir_ok :: "os_state \<Rightarrow> bool" where
  "chdir_ok s = (0 \<le> fst (next_answer s))"

text \<open>The events a function appended to the trace, from the state it was called in to
  the state it left.\<close>

definition new_events :: "os_state \<Rightarrow> os_state \<Rightarrow> event list" where
  "new_events s s' = drop (length (trace s)) (trace s')"

text \<open>The first \<open>k\<close> answers of the kernel are successes.\<close>

definition succeed :: "nat \<Rightarrow> int list \<Rightarrow> bool" where
  "succeed k as = (\<forall>a \<in> set (take k as). 0 \<le> a)"

text \<open>An \<^verbatim>\<open>open\<close> or \<^verbatim>\<open>dup2\<close> that failed; a message on standard error.\<close>

definition failed_call :: "event \<Rightarrow> bool" where
  "failed_call e = (case e of Ev_open p f m r \<Rightarrow> r < 0 | Ev_dup2 a b r \<Rightarrow> r < 0 | _ \<Rightarrow> False)"

definition diagnostic :: "event \<Rightarrow> bool" where
  "diagnostic e = (case e of Ev_perror l \<Rightarrow> True | Ev_fprintf f a \<Rightarrow> True | _ \<Rightarrow> False)"

text \<open>The flags a redirection in output or append mode opens its target with.\<close>

definition write_flags :: "redirect_mode \<Rightarrow> oflag list" where
  "write_flags mode = [O_WRONLY, O_CREAT, if mode = REDIRECT_APPEND then O_APPEND else O_TRUNC]"

text \<open>The modes the switch of \<^verbatim>\<open>execute_redirect\<close> has a case for.\<close>

definition known_mode :: "redirect_mode \<Rightarrow> bool" where
  "known_mode mode = (case mode of REDIRECT_OTHER m \<Rightarrow> False | _ \<Rightarrow> True)"

text \<open>
  What the switch of the wrapper child guarantees, from the state \<open>s1\<close> it starts in to
  its result \<open>w\<close>: it only appends events; a failed \<^verbatim>\<open>open\<close> or \<^verbatim>\<open>dup2\<close> among them
  makes it leave with \<^verbatim>\<open>exit(1)\<close>; whenever it leaves, the status is 1 and the last
  event is a message; it falls through to the wrapped node exactly when no call failed
  and the mode is known.
\<close>

definition switch_result :: "redirect_mode \<Rightarrow> os_state \<Rightarrow> int option \<times> os_state \<Rightarrow> bool" where
  "switch_result mode s1 w =
     (let evs = new_events s1 (snd w) in
      trace (snd w) = trace s1 @ evs
      \<and> ((\<exists>e \<in> set evs. failed_call e) \<longrightarrow> fst w = Some 1)
      \<and> (fst w \<noteq> None \<longrightarrow> fst w = Some 1 \<and> evs \<noteq> [] \<and> diagnostic (last evs))
      \<and> (fst w = None \<longleftrightarrow> (\<forall>e \<in> set evs. \<not> failed_call e) \<and> known_mode mode))"

text \<open>The pipes that \<open>k\<close> successful calls of \<^verbatim>\<open>pipe\<close> create, one after the other, in a
  process whose open descriptors are \<open>open_fds\<close>; the descriptors of a list of pipes; the
  events of creating and of closing them.\<close>

fun alloc_pipes :: "nat \<Rightarrow> int list \<Rightarrow> (int \<times> int) list" where
  "alloc_pipes 0 open_fds = []"
| "alloc_pipes (Suc k) open_fds =
     (let r = lowest_free open_fds; w = lowest_free (r # open_fds)
      in (r, w) # alloc_pipes k (w # r # open_fds))"

definition pipe_fds :: "(int \<times> int) list \<Rightarrow> int list" where
  "pipe_fds ps = concat (map (\<lambda>p. [fst p, snd p]) ps)"

definition pipe_events :: "(int \<times> int) list \<Rightarrow> event list" where
  "pipe_events ps = map (\<lambda>p. Ev_pipe (Some p)) ps"

definition close_events :: "(int \<times> int) list \<Rightarrow> event list" where
  "close_events ps = concat (map (\<lambda>p. [Ev_close (fst p), Ev_close (snd p)]) ps)"

text \<open>The events of waiting for \<open>pids\<close> in turn, the kernel answering from \<open>as\<close>.\<close>

fun wait_events :: "int list \<Rightarrow> int list \<Rightarrow> event list" where
  "wait_events [] as = []"
| "wait_events (p # ps) as =
     Ev_waitpid p (if (case as of [] \<Rightarrow> 0 | a # _ \<Rightarrow> a) < 0 then - 1 else p)
       # wait_events ps (tl as)"

text \<open>The state of the parent after \<^verbatim>\<open>fork\<close> returned the pids \<open>pids\<close>, one call each.\<close>

definition forked :: "int list \<Rightarrow> os_state \<Rightarrow> os_state" where
  "forked pids s = s\<lparr>trace := trace s @ map Ev_fork pids,
                      answers := drop (length pids) (answers s),
                      children := children s @ pids\<rparr>"

text \<open>A tree that reaches the \<^verbatim>\<open>exit\<close> built-in without a \<^verbatim>\<open>fork\<close> in between: an
  \<^verbatim>\<open>exit\<close> command, or a sequence with one on either side.\<close>

fun runs_exit :: "node option \<Rightarrow> bool" where
  "runs_exit None = False"
| "runs_exit (Some (NODE_COMMAND program argv)) = (program = ''exit'')"
| "runs_exit (Some (NODE_SEQUENCE first second)) = (runs_exit first \<or> runs_exit second)"
| "runs_exit (Some (NODE_PIPE parts)) = False"
| "runs_exit (Some (NODE_REDIRECT child fd mode target fd2)) = False"
| "runs_exit (Some (NODE_SUBSHELL child)) = False"
| "runs_exit (Some (NODE_DETACH child)) = False"
| "runs_exit (Some (NODE_OTHER t)) = False"

text \<open>The result \<open>r\<close> of a function of the engine called in state \<open>s\<close> keeps the events
  of \<open>s\<close>, and is a return to the caller unless \<open>e\<close> holds or the process has become a
  forked child.\<close>

definition returns_unless :: "bool \<Rightarrow> os_state \<Rightarrow> outcome \<times> os_state \<Rightarrow> bool" where
  "returns_unless e s r =
     (set (trace s) \<subseteq> set (trace (snd r))
      \<and> (fst r \<noteq> Returned \<longrightarrow> e \<or> Ev_fork 0 \<in> set (trace (snd r))))"

section \<open>Properties\<close>

lemmas start_defs = shell_start_def initialize_def sys_signal_def log_event_def

subsection \<open>System calls and the answers of the kernel\<close>

lemma log_event_fields [simp]:
  "trace (log_event e s) = trace s @ [e]"
  "answers (log_event e s) = answers s"
  "fds (log_event e s) = fds s"
  "children (log_event e s) = children s"
  "sigs (log_event e s) = sigs s"
  "cwd (log_event e s) = cwd s"
  "home (log_event e s) = home s"
  by (simp_all add: log_event_def)

lemma next_answer_fields [simp]:
  "trace (snd (next_answer s)) = trace s"
  "answers (snd (next_answer s)) = tl (answers s)"
  "fds (snd (next_answer s)) = fds s"
  "children (snd (next_answer s)) = children s"
  "sigs (snd (next_answer s)) = sigs s"
  "cwd (snd (next_answer s)) = cwd s"
  "home (snd (next_answer s)) = home s"
  by (simp_all add: next_answer_def split: list.splits)

lemma next_answer_Cons: "answers s = a # as \<Longrightarrow> fst (next_answer s) = a"
  by (simp add: next_answer_def)

lemma succeed_head: "succeed k (answers s) \<Longrightarrow> 0 < k \<Longrightarrow> \<not> fst (next_answer s) < 0"
  by (cases k; cases "answers s") (auto simp: succeed_def next_answer_def)

lemma succeed_tl: "succeed k as \<Longrightarrow> succeed (k - 1) (tl as)"
  by (cases k; cases as) (auto simp: succeed_def dest: in_set_takeD)

lemma lowest_free_fresh: "lowest_free xs \<notin> set xs \<and> 0 \<le> lowest_free xs"
proof -
  let ?P = "\<lambda>k. k \<notin> set xs"
  have "\<exists>k \<in> {0 .. int (length xs)}. k \<notin> set xs"
  proof (rule ccontr)
    assume "\<not> (\<exists>k \<in> {0 .. int (length xs)}. k \<notin> set xs)"
    then have "{0 .. int (length xs)} \<subseteq> set xs" by auto
    then have "card {0 .. int (length xs)} \<le> card (set xs)" by (rule card_mono [OF finite_set])
    moreover have "card {0 .. int (length xs)} = length xs + 1" by simp
    moreover have "card (set xs) \<le> length xs" by (rule card_length)
    ultimately show False by simp
  qed
  then have "filter ?P [0 .. int (length xs)] \<noteq> []"
    by (simp add: filter_empty_conv)
  then have "hd (filter ?P [0 .. int (length xs)]) \<in> set (filter ?P [0 .. int (length xs)])"
    by (rule hd_in_set)
  then show ?thesis by (simp add: lowest_free_def)
qed

lemma lowest_free_not_neg [simp]: "\<not> lowest_free xs < 0"
  using lowest_free_fresh [of xs] by simp

lemma sys_fork_child:
  "answers s = 0 # rest \<Longrightarrow>
     sys_fork s = (0, log_event (Ev_fork 0) (s\<lparr>answers := rest, children := []\<rparr>))"
  by (simp add: sys_fork_def next_answer_def)

lemmas call_defs = sys_open_def mode_0644_def sys_dup2_def sys_close_def sys_perror_def
  sys_fprintf_stderr_def STDIN_FILENO_def STDOUT_FILENO_def STDERR_FILENO_def

lemma lowest_free_3: "lowest_free [0, 1, 2] = 3"
  by (simp add: lowest_free_def upto.simps)

lemmas run_defs = sys_fork_def sys_pipe_def sys_execvp_def sys_waitpid_def call_defs
  next_answer_def execute_command_def wire_stage_def

lemma lowest_free_4: "lowest_free [3, 0, 1, 2] = 4"
  by (simp add: lowest_free_def upto.simps)

subsection \<open>Built-in commands\<close>

lemma digits_value_no_digit: "(case cs of [] \<Rightarrow> False | d # _ \<Rightarrow> isdigit d) = False \<Longrightarrow> digits_value 0 cs = 0"
  by (cases cs) simp_all

lemma strtol_no_number:
  assumes "\<not> starts_number str"
  shows "strtol str = 0"
proof (cases "dropWhile isspace str")
  case Nil
  show ?thesis unfolding strtol_def Nil by simp
next
  case (Cons c cs)
  show ?thesis
  proof (cases "c = CHR ''-'' \<or> c = CHR ''+''")
    case True
    from assms have "(case cs of [] \<Rightarrow> False | d # _ \<Rightarrow> isdigit d) = False"
      unfolding starts_number_def Cons using True by simp
    then have "digits_value 0 cs = 0" by (rule digits_value_no_digit)
    then show ?thesis unfolding strtol_def Cons using True
      by (auto simp: LONG_MAX_def LONG_MIN_def)
  next
    case False
    from assms have "\<not> isdigit c"
      unfolding starts_number_def Cons using False by simp
    then show ?thesis unfolding strtol_def Cons using False by (simp add: LONG_MAX_def)
  qed
qed

lemma atoi_no_number: "\<not> starts_number str \<Longrightarrow> atoi str = 0"
  by (simp add: atoi_def strtol_no_number int_of_long_def)

lemma digit_char_props: "d < 10 \<Longrightarrow> isdigit (digit_char d) \<and> (of_char (digit_char d) :: int) - 48 = int d
    \<and> \<not> isspace (digit_char d) \<and> digit_char d \<noteq> CHR ''-'' \<and> digit_char d \<noteq> CHR ''+''"
proof -
  assume "d < 10"
  then have "d \<in> {0, 1, 2, 3, 4, 5, 6, 7, 8, 9}" by auto
  then show ?thesis
    by (auto simp: digit_char_def isdigit_def isspace_def)
qed

lemma digits_value_decimal:
  "digits_value acc (decimal n @ cs) = digits_value (acc * 10 ^ length (decimal n) + int n) cs"
proof (induction n arbitrary: acc cs rule: decimal.induct)
  case (1 n)
  show ?case
  proof (cases "n < 10")
    case True
    then show ?thesis
      using digit_char_props [of n] by (simp add: decimal.simps [of n])
  next
    case False
    have m: "n mod 10 < 10" by simp
    have "digits_value acc (decimal n @ cs) =
        digits_value acc (decimal (n div 10) @ digit_char (n mod 10) # cs)"
      using False by (simp add: decimal.simps [of n])
    also have "\<dots> = digits_value (acc * 10 ^ length (decimal (n div 10)) + int (n div 10))
        (digit_char (n mod 10) # cs)"
      using False by (rule "1.IH")
    also have "\<dots> = digits_value
        ((acc * 10 ^ length (decimal (n div 10)) + int (n div 10)) * 10 + int (n mod 10)) cs"
      using digit_char_props [OF m] by simp
    also have "(acc * 10 ^ length (decimal (n div 10)) + int (n div 10)) * 10 + int (n mod 10) =
        acc * 10 ^ length (decimal n) + int n"
      using False by (simp add: decimal.simps [of n] algebra_simps zdiv_int zmod_int)
    finally show ?thesis .
  qed
qed

lemma decimal_head: "\<exists>c cs. decimal n = c # cs \<and> isdigit c \<and> \<not> isspace c \<and> c \<noteq> CHR ''-'' \<and> c \<noteq> CHR ''+''"
proof (induction n rule: decimal.induct)
  case (1 n)
  show ?case
  proof (cases "n < 10")
    case True
    then show ?thesis using digit_char_props [of n] by (simp add: decimal.simps [of n])
  next
    case False
    from "1.IH" [OF False] obtain c cs where "decimal (n div 10) = c # cs"
      "isdigit c \<and> \<not> isspace c \<and> c \<noteq> CHR ''-'' \<and> c \<noteq> CHR ''+''" by blast
    then show ?thesis using False by (simp add: decimal.simps [of n])
  qed
qed

lemma digits_value_end: "ends_number rest \<Longrightarrow> digits_value a rest = a"
  by (cases rest) (simp_all add: ends_number_def)

lemma digits_value_numeral:
  "ends_number rest \<Longrightarrow> digits_value 0 (decimal n @ rest) = int n"
  by (simp add: digits_value_decimal digits_value_end)

lemma dropWhile_spaces:
  "list_all isspace ws \<Longrightarrow> \<not> isspace c \<Longrightarrow> dropWhile isspace (ws @ c # cs) = c # cs"
  by (simp add: dropWhile_append list_all_iff)

lemma strtol_plain:
  assumes "list_all isspace ws" "ends_number rest"
  shows "strtol (ws @ decimal n @ rest) = min LONG_MAX (int n)"
proof -
  obtain c cs where d: "decimal n = c # cs" and c: "\<not> isspace c" "c \<noteq> CHR ''-''" "c \<noteq> CHR ''+''"
    using decimal_head [of n] by blast
  have v: "digits_value 0 (c # cs @ rest) = int n"
    using digits_value_numeral [OF assms(2), of n] d by simp
  have "dropWhile isspace (ws @ c # cs @ rest) = c # cs @ rest"
    using assms(1) c(1) by (rule dropWhile_spaces)
  then have "strtol (ws @ c # cs @ rest) = min LONG_MAX (digits_value 0 (c # cs @ rest))"
    unfolding strtol_def using c by simp
  then show ?thesis using v d by simp
qed

lemma strtol_minus:
  assumes "list_all isspace ws" "ends_number rest"
  shows "strtol (ws @ CHR ''-'' # decimal n @ rest) = max LONG_MIN (- int n)"
proof -
  have ns: "\<not> isspace CHR ''-''" by (simp add: isspace_def)
  have "dropWhile isspace (ws @ CHR ''-'' # decimal n @ rest) = CHR ''-'' # decimal n @ rest"
    using assms(1) ns by (rule dropWhile_spaces)
  then show ?thesis
    unfolding strtol_def using digits_value_numeral [OF assms(2), of n] by simp
qed

lemma strtol_plus:
  assumes "list_all isspace ws" "ends_number rest"
  shows "strtol (ws @ CHR ''+'' # decimal n @ rest) = min LONG_MAX (int n)"
proof -
  have ns: "\<not> isspace CHR ''+''" by (simp add: isspace_def)
  have "dropWhile isspace (ws @ CHR ''+'' # decimal n @ rest) = CHR ''+'' # decimal n @ rest"
    using assms(1) ns by (rule dropWhile_spaces)
  then show ?thesis
    unfolding strtol_def using digits_value_numeral [OF assms(2), of n] by simp
qed

lemma int_of_long_id: "- (2 ^ 31) \<le> x \<Longrightarrow> x < 2 ^ 31 \<Longrightarrow> int_of_long x = x"
  by (simp add: int_of_long_def)

lemma int_below: "n < 2 ^ 31 \<Longrightarrow> int n < 2 ^ 31"
  by (metis of_nat_less_iff of_nat_numeral of_nat_power)

lemma int_upto: "n \<le> 2 ^ 31 \<Longrightarrow> int n \<le> 2 ^ 31"
  by (metis of_nat_le_iff of_nat_numeral of_nat_power)

lemma atoi_plain:
  "list_all isspace ws \<Longrightarrow> ends_number rest \<Longrightarrow> n < 2 ^ 31 \<Longrightarrow>
     atoi (ws @ decimal n @ rest) = int n"
  using int_below [of n] by (simp add: atoi_def strtol_plain int_of_long_id LONG_MAX_def)

lemma atoi_plus:
  "list_all isspace ws \<Longrightarrow> ends_number rest \<Longrightarrow> n < 2 ^ 31 \<Longrightarrow>
     atoi (ws @ CHR ''+'' # decimal n @ rest) = int n"
  using int_below [of n] by (simp add: atoi_def strtol_plus int_of_long_id LONG_MAX_def)

lemma atoi_minus:
  "list_all isspace ws \<Longrightarrow> ends_number rest \<Longrightarrow> n \<le> 2 ^ 31 \<Longrightarrow>
     atoi (ws @ CHR ''-'' # decimal n @ rest) = - int n"
  using int_upto [of n] by (simp add: atoi_def strtol_minus int_of_long_id LONG_MIN_def)

lemma atoi_range: "- (2 ^ 31) \<le> atoi str \<and> atoi str < 2 ^ 31"
  by (simp add: atoi_def int_of_long_def)

lemmas atoi_eval = atoi_def strtol_def int_of_long_def LONG_MAX_def LONG_MIN_def isspace_def
  isdigit_def

text \<open>
  C7. A command whose program is \<^verbatim>\<open>exit\<close> ends the calling process through
  \<^verbatim>\<open>exit\<close>, with the \<^verbatim>\<open>int\<close> that \<^verbatim>\<open>atoi\<close> reads from argument 1 when there is one and
  with 0 otherwise. The state of the process is untouched: no call is made, so nothing
  is forked. The status is always in the range of an \<^verbatim>\<open>int\<close>. An argument that does
  not start with a number gives 0. An argument made of
  white space, an optional sign, the decimal numeral of a number that fits an \<^verbatim>\<open>int\<close>,
  and a rest that does not go on with a digit gives that number. \<^verbatim>\<open>exit 7\<close> ends with
  7, \<^verbatim>\<open>exit 42\<close> with 42, \<^verbatim>\<open>exit\<close> and \<^verbatim>\<open>exit abc\<close> with 0. A numeral that does not
  fit is reduced as the conversion to \<^verbatim>\<open>int\<close> does: \<^verbatim>\<open>exit 4294967303\<close> ends with 7.
\<close>

theorem exit_builtin:
  "run_command (Some (NODE_COMMAND ''exit'' argv)) s =
     (Exited (if 1 < length argv then atoi (argv ! 1) else 0), s)
   \<and> (1 < length argv \<and> \<not> starts_number (argv ! 1) \<longrightarrow>
        fst (run_command (Some (NODE_COMMAND ''exit'' argv)) s) = Exited 0)
   \<and> (list_all isspace ws \<and> ends_number rest \<and> n < 2 ^ 31 \<longrightarrow>
        run_command (Some (NODE_COMMAND ''exit'' [''exit'', ws @ decimal n @ rest])) s =
          (Exited (int n), s)
        \<and> run_command (Some (NODE_COMMAND ''exit'' [''exit'', ws @ CHR ''+'' # decimal n @ rest])) s =
          (Exited (int n), s))
   \<and> (list_all isspace ws \<and> ends_number rest \<and> n \<le> 2 ^ 31 \<longrightarrow>
        run_command (Some (NODE_COMMAND ''exit'' [''exit'', ws @ CHR ''-'' # decimal n @ rest])) s =
          (Exited (- int n), s))
   \<and> (- (2 ^ 31) \<le> atoi str \<and> atoi str < 2 ^ 31)
   \<and> run_command (Some (NODE_COMMAND ''exit'' [''exit'', ''7''])) s = (Exited 7, s)
   \<and> run_command (Some (NODE_COMMAND ''exit'' [''exit''])) s = (Exited 0, s)
   \<and> run_command (Some (NODE_COMMAND ''exit'' [''exit'', ''abc''])) s = (Exited 0, s)
   \<and> run_command (Some (NODE_COMMAND ''exit'' [''exit'', ''42''])) s = (Exited 42, s)
   \<and> run_command (Some (NODE_COMMAND ''exit'' [''exit'', ''  -12x''])) s = (Exited (- 12), s)
   \<and> run_command (Some (NODE_COMMAND ''exit'' [''exit'', ''007''])) s = (Exited 7, s)
   \<and> run_command (Some (NODE_COMMAND ''exit'' [''exit'', ''1a2''])) s = (Exited 1, s)
   \<and> run_command (Some (NODE_COMMAND ''exit'' [''exit'', ''4294967303''])) s = (Exited 7, s)
   \<and> run_command (Some (NODE_COMMAND ''exit'' [''exit'', ''2147483648''])) s =
        (Exited (- 2147483648), s)"
proof -
  have general: "execute_command ''exit'' av s =
     (Exited (if 1 < length av then atoi (av ! 1) else 0), s)" for av
    by (simp add: execute_command_def)
  have one: "execute_command ''exit'' [''exit'', str] s = (Exited (atoi str), s)" for str
    by (simp add: general)
  have none: "1 < length argv \<and> \<not> starts_number (argv ! 1) \<longrightarrow>
        fst (execute_command ''exit'' argv s) = Exited 0"
    by (simp add: general atoi_no_number)
  have plain: "list_all isspace ws \<and> ends_number rest \<and> n < 2 ^ 31 \<longrightarrow>
        execute_command ''exit'' [''exit'', ws @ decimal n @ rest] s = (Exited (int n), s)
        \<and> execute_command ''exit'' [''exit'', ws @ CHR ''+'' # decimal n @ rest] s =
            (Exited (int n), s)"
    by (simp add: one atoi_plain atoi_plus)
  have minus: "list_all isspace ws \<and> ends_number rest \<and> n \<le> 2 ^ 31 \<longrightarrow>
        execute_command ''exit'' [''exit'', ws @ CHR ''-'' # decimal n @ rest] s =
          (Exited (- int n), s)"
    by (simp add: one atoi_minus)
  have ex: "atoi ''7'' = 7" "atoi ''abc'' = 0" "atoi ''42'' = 42" "atoi ''  -12x'' = - 12"
    "atoi ''007'' = 7" "atoi ''1a2'' = 1" "atoi ''4294967303'' = 7"
    "atoi ''2147483648'' = - 2147483648"
    by (simp_all add: atoi_eval)
  have exs: "execute_command ''exit'' [''exit'', ''7''] s = (Exited 7, s)"
    "execute_command ''exit'' [''exit'', ''abc''] s = (Exited 0, s)"
    "execute_command ''exit'' [''exit'', ''42''] s = (Exited 42, s)"
    "execute_command ''exit'' [''exit'', ''  -12x''] s = (Exited (- 12), s)"
    "execute_command ''exit'' [''exit'', ''007''] s = (Exited 7, s)"
    "execute_command ''exit'' [''exit'', ''1a2''] s = (Exited 1, s)"
    "execute_command ''exit'' [''exit'', ''4294967303''] s = (Exited 7, s)"
    "execute_command ''exit'' [''exit'', ''2147483648''] s = (Exited (- 2147483648), s)"
    unfolding one ex by simp_all
  have zero: "execute_command ''exit'' [''exit''] s = (Exited 0, s)"
    by (simp add: general)
  from general [of argv] none plain minus zero exs atoi_range [of str] show ?thesis
    unfolding run_command.simps by blast
qed

theorem exit_builtin_witness:
  "(1 < length [''exit'', ''x9''] \<and> \<not> starts_number ([''exit'', ''x9''] ! 1)
    \<and> fst (run_command (Some (NODE_COMMAND ''exit'' [''exit'', ''x9''])) (shell_start [] None)) =
        Exited 0)
   \<and> (list_all isspace ''  '' \<and> ends_number ''x'' \<and> (42::nat) < 2 ^ 31
      \<and> run_command (Some (NODE_COMMAND ''exit'' [''exit'', ''  42x''])) (shell_start [] None) =
          (Exited 42, shell_start [] None))
   \<and> ((5::nat) \<le> 2 ^ 31
      \<and> run_command (Some (NODE_COMMAND ''exit'' [''exit'', ''  -5x''])) (shell_start [] None) =
          (Exited (- 5), shell_start [] None))"
proof -
  have h: "1 < length [''exit'', ''x9''] \<and> \<not> starts_number ([''exit'', ''x9''] ! 1)"
    by (simp add: starts_number_def isspace_def isdigit_def)
  have k: "list_all isspace ''  ''" "ends_number ''x''" "(42::nat) < 2 ^ 31" "(5::nat) \<le> 2 ^ 31"
    by (simp_all add: isspace_def ends_number_def isdigit_def)
  have d: "''  '' @ decimal 42 @ ''x'' = ''  42x''" "''  '' @ CHR ''-'' # decimal 5 @ ''x'' = ''  -5x''"
    by (simp_all add: decimal.simps digit_char_def)
  from exit_builtin [of "[''exit'', ''x9'']" "shell_start [] None"] h
  have a: "fst (run_command (Some (NODE_COMMAND ''exit'' [''exit'', ''x9''])) (shell_start [] None)) =
        Exited 0"
    by blast
  from exit_builtin [of _ "shell_start [] None" "''  ''" "''x''" 42] k
  have b: "run_command (Some (NODE_COMMAND ''exit'' [''exit'', ''  '' @ decimal 42 @ ''x''])) (shell_start [] None) =
          (Exited (int 42), shell_start [] None)"
    by blast
  from exit_builtin [of _ "shell_start [] None" "''  ''" "''x''" 5] k
  have c: "run_command (Some (NODE_COMMAND ''exit'' [''exit'', ''  '' @ CHR ''-'' # decimal 5 @ ''x''])) (shell_start [] None) =
          (Exited (- int 5), shell_start [] None)"
    by blast
  from a b c h k show ?thesis unfolding d by simp
qed

text \<open>
  C8. A command whose program is \<^verbatim>\<open>cd\<close> always returns to its caller and forks
  nothing (the calls it makes are listed, the children are unchanged). With an argument
  it calls \<^verbatim>\<open>chdir\<close> on it, without one on the value of \<^verbatim>\<open>HOME\<close>; a successful
  \<^verbatim>\<open>chdir\<close> changes the working directory to that path, a failed one is followed by
  \<^verbatim>\<open>perror("cd")\<close> and leaves the directory as it was. Without an argument and
  without \<^verbatim>\<open>HOME\<close> the message \<^verbatim>\<open>cd: HOME not set\<close> is printed and the directory is
  unchanged.
\<close>

theorem cd_builtin:
  fixes argv :: "string list" and s :: os_state
  defines "r \<equiv> run_command (Some (NODE_COMMAND ''cd'' argv)) s"
  shows "fst r = Returned
   \<and> children (snd r) = children s
   \<and> (2 \<le> length argv \<and> chdir_ok s \<longrightarrow>
        trace (snd r) = trace s @ [Ev_chdir (argv ! 1) 0]
        \<and> cwd (snd r) = resolve (cwd s) (argv ! 1))
   \<and> (2 \<le> length argv \<and> \<not> chdir_ok s \<longrightarrow>
        trace (snd r) = trace s @ [Ev_chdir (argv ! 1) (- 1), Ev_perror ''cd'']
        \<and> cwd (snd r) = cwd s)
   \<and> (length argv < 2 \<and> home s = Some h \<and> chdir_ok s \<longrightarrow>
        trace (snd r) = trace s @ [Ev_getenv ''HOME'', Ev_chdir h 0]
        \<and> cwd (snd r) = resolve (cwd s) h)
   \<and> (length argv < 2 \<and> home s = Some h \<and> \<not> chdir_ok s \<longrightarrow>
        trace (snd r) = trace s @ [Ev_getenv ''HOME'', Ev_chdir h (- 1), Ev_perror ''cd'']
        \<and> cwd (snd r) = cwd s)
   \<and> (length argv < 2 \<and> home s = None \<longrightarrow>
        trace (snd r) = trace s @ [Ev_getenv ''HOME'', Ev_fprintf ''cd: HOME not set\<newline>'' []]
        \<and> cwd (snd r) = cwd s)"
  unfolding r_def
  by (auto simp: execute_command_def sys_getenv_HOME_def sys_chdir_def sys_perror_def
      sys_fprintf_stderr_def next_answer_def log_event_def chdir_ok_def Let_def
      split: list.splits option.splits)


theorem cd_builtin_witness:
  "(let s = shell_start [0] None; argv = [''cd'', ''/tmp''];
        r = run_command (Some (NODE_COMMAND ''cd'' argv)) s
    in 2 \<le> length argv \<and> chdir_ok s \<and> fst r = Returned \<and> cwd (snd r) = ''/tmp'')
   \<and> (let s = shell_start [- 1] None; argv = [''cd'', ''/nowhere''];
        r = run_command (Some (NODE_COMMAND ''cd'' argv)) s
    in 2 \<le> length argv \<and> \<not> chdir_ok s \<and> fst r = Returned \<and> cwd (snd r) = ''/srv''
       \<and> trace (snd r) = trace s @ [Ev_chdir ''/nowhere'' (- 1), Ev_perror ''cd''])
   \<and> (let s = shell_start [0] (Some ''/home/u''); argv = [''cd''];
        r = run_command (Some (NODE_COMMAND ''cd'' argv)) s
    in length argv < 2 \<and> home s = Some ''/home/u'' \<and> chdir_ok s \<and> cwd (snd r) = ''/home/u'')
   \<and> (let s = shell_start [- 1] (Some ''/home/u''); argv = [''cd''];
        r = run_command (Some (NODE_COMMAND ''cd'' argv)) s
    in length argv < 2 \<and> home s = Some ''/home/u'' \<and> \<not> chdir_ok s \<and> cwd (snd r) = ''/srv'')
   \<and> (let s = shell_start [] None; argv = [''cd''];
        r = run_command (Some (NODE_COMMAND ''cd'' argv)) s
    in length argv < 2 \<and> home s = None \<and> cwd (snd r) = ''/srv''
       \<and> trace (snd r) = trace s @ [Ev_getenv ''HOME'', Ev_fprintf ''cd: HOME not set\<newline>'' []])"
proof -
  have a: "chdir_ok (shell_start [0] h)" "\<not> chdir_ok (shell_start [- 1] h)"
    "home (shell_start as h) = h" "cwd (shell_start as h) = ''/srv''" for h as
    by (simp_all add: start_defs chdir_ok_def next_answer_def)
  show ?thesis
    unfolding Let_def
    using cd_builtin [of "[''cd'', ''/tmp'']" "shell_start [0] None"]
      cd_builtin [of "[''cd'', ''/nowhere'']" "shell_start [- 1] None"]
      cd_builtin [of "[''cd'']" "shell_start [0] (Some ''/home/u'')" "''/home/u''"]
      cd_builtin [of "[''cd'']" "shell_start [- 1] (Some ''/home/u'')" "''/home/u''"]
      cd_builtin [of "[''cd'']" "shell_start [] None"]
    by (simp add: a resolve_def)
qed

subsection \<open>Redirections\<close>

lemma redirect_to_file_ok:
  assumes "succeed (if fd < 0 then 3 else 2) (answers s)"
  shows "fst (redirect_to_file flags fd target s) = None
    \<and> trace (snd (redirect_to_file flags fd target s)) =
        trace s @ [Ev_open target flags (Some mode_0644) (lowest_free (fds s))]
          @ (if fd < 0 then [Ev_dup2 (lowest_free (fds s)) STDOUT_FILENO STDOUT_FILENO,
                             Ev_dup2 (lowest_free (fds s)) STDERR_FILENO STDERR_FILENO]
             else [Ev_dup2 (lowest_free (fds s)) fd fd])
          @ [Ev_close (lowest_free (fds s))]"
proof (cases "fd < 0")
  case True
  with assms have a3: "succeed 3 (answers s)" by simp
  then have a2: "succeed 2 (tl (answers s))" using succeed_tl [of 3] by simp
  then have a1: "succeed 1 (tl (tl (answers s)))" using succeed_tl [of 2] by simp
  have n1: "\<not> fst (next_answer s) < 0" using a3 by (rule succeed_head) simp
  have n2: "answers s' = tl (answers s) \<Longrightarrow> \<not> fst (next_answer s') < 0" for s'
    using a2 succeed_head [of 2 s'] by simp
  have n3: "answers s' = tl (tl (answers s)) \<Longrightarrow> \<not> fst (next_answer s') < 0" for s'
    using a1 succeed_head [of 1 s'] by simp
  show ?thesis using True
    by (simp add: redirect_to_file_def call_defs Let_def split_beta n1 n2 n3)
next
  case False
  with assms have a2: "succeed 2 (answers s)" by simp
  then have a1: "succeed 1 (tl (answers s))" using succeed_tl [of 2] by simp
  have n1: "\<not> fst (next_answer s) < 0" using a2 by (rule succeed_head) simp
  have n2: "answers s' = tl (answers s) \<Longrightarrow> \<not> fst (next_answer s') < 0" for s'
    using a1 succeed_head [of 1 s'] by simp
  show ?thesis using False
    by (simp add: redirect_to_file_def call_defs Let_def split_beta n1 n2)
qed

text \<open>
  C5. In the wrapper child of a redirection in output or append mode, when \<^verbatim>\<open>open\<close> and
  the \<^verbatim>\<open>dup2\<close> calls succeed: the target is opened with \<^verbatim>\<open>O_WRONLY | O_CREAT\<close> and
  \<^verbatim>\<open>O_TRUNC\<close> (output) or \<^verbatim>\<open>O_APPEND\<close> (append); the descriptor obtained is duplicated
  onto the target descriptor of the node when there is one (\<open>fd \<ge> 0\<close>), else onto
  standard output; exactly when there is none it is duplicated onto standard error as
  well; then it is closed, and the wrapped node is run.
\<close>

theorem redirect_output_append:
  fixes child :: "node option" and fd fd2 :: int and mode :: redirect_mode
    and target :: string and s :: os_state
  assumes mode: "mode = REDIRECT_OUTPUT \<or> mode = REDIRECT_APPEND"
    and child: "answers s = 0 # rest"
    and ok: "succeed (if fd < 0 then 3 else 2) rest"
  defines "file_fd \<equiv> lowest_free (fds s)"
  defines "s2 \<equiv> snd (redirect_switch mode fd target fd2 (snd (sys_fork s)))"
  shows "trace s2 = trace s @ [Ev_fork 0, Ev_open target (write_flags mode) (Some mode_0644) file_fd]
            @ (if fd < 0 then [Ev_dup2 file_fd STDOUT_FILENO STDOUT_FILENO,
                               Ev_dup2 file_fd STDERR_FILENO STDERR_FILENO]
               else [Ev_dup2 file_fd fd fd])
            @ [Ev_close file_fd]
     \<and> run_command (Some (NODE_REDIRECT child fd mode target fd2)) s =
         (case run_command child s2 of (Returned, s3) \<Rightarrow> (Exited 0, s3) | (out, s3) \<Rightarrow> (out, s3))"
proof -
  have sw: "redirect_switch mode fd target fd2 = redirect_to_file (write_flags mode) fd target"
    using mode by (auto simp: write_flags_def fun_eq_iff)
  let ?s1 = "log_event (Ev_fork 0) (s\<lparr>answers := rest, children := []\<rparr>)"
  have fork: "sys_fork s = (0, ?s1)"
    using child by (rule sys_fork_child)
  have "succeed (if fd < 0 then 3 else 2) (answers ?s1)" using ok by simp
  from redirect_to_file_ok [OF this, of "write_flags mode" target]
  have w: "fst (redirect_to_file (write_flags mode) fd target ?s1) = None"
    and t: "trace (snd (redirect_to_file (write_flags mode) fd target ?s1)) =
        trace ?s1 @ [Ev_open target (write_flags mode) (Some mode_0644) (lowest_free (fds ?s1))]
          @ (if fd < 0 then [Ev_dup2 (lowest_free (fds ?s1)) STDOUT_FILENO STDOUT_FILENO,
                             Ev_dup2 (lowest_free (fds ?s1)) STDERR_FILENO STDERR_FILENO]
             else [Ev_dup2 (lowest_free (fds ?s1)) fd fd])
          @ [Ev_close (lowest_free (fds ?s1))]"
    by blast+
  have tr: "trace s2 = trace s @ [Ev_fork 0, Ev_open target (write_flags mode) (Some mode_0644) file_fd]
            @ (if fd < 0 then [Ev_dup2 file_fd STDOUT_FILENO STDOUT_FILENO,
                               Ev_dup2 file_fd STDERR_FILENO STDERR_FILENO]
               else [Ev_dup2 file_fd fd fd])
            @ [Ev_close file_fd]"
    unfolding s2_def sw fork file_fd_def using t by simp
  have run: "run_command (Some (NODE_REDIRECT child fd mode target fd2)) s =
         (case run_command child s2 of (Returned, s3) \<Rightarrow> (Exited 0, s3) | (out, s3) \<Rightarrow> (out, s3))"
    unfolding s2_def sw fork using w
    by (simp add: fork sw split_beta split: option.splits)
  from tr run show ?thesis by simp
qed


theorem redirect_output_append_witness:
  "(REDIRECT_APPEND = REDIRECT_OUTPUT \<or> REDIRECT_APPEND = REDIRECT_APPEND)
   \<and> answers (shell_start [0, 0, 0, 0] None) = 0 # [0, 0, 0]
   \<and> succeed (if (- 1 :: int) < 0 then 3 else 2) [0, 0, 0]
   \<and> new_events (shell_start [0, 0, 0, 0] None)
        (snd (redirect_switch REDIRECT_APPEND (- 1) ''log'' 0
           (snd (sys_fork (shell_start [0, 0, 0, 0] None))))) =
       [Ev_fork 0, Ev_open ''log'' [O_WRONLY, O_CREAT, O_APPEND] (Some 420) 3, Ev_dup2 3 1 1, Ev_dup2 3 2 2,
        Ev_close 3]"
proof -
  have a: "REDIRECT_APPEND = REDIRECT_OUTPUT \<or> REDIRECT_APPEND = REDIRECT_APPEND" by simp
  have b: "answers (shell_start [0, 0, 0, 0] None) = 0 # [0, 0, 0]" by (simp add: start_defs)
  have c: "succeed (if (- 1 :: int) < 0 then 3 else 2) [0, 0, 0]" by (simp add: succeed_def)
  have d: "fds (shell_start [0, 0, 0, 0] None) = [0, 1, 2]" by (simp add: start_defs)
  from redirect_output_append [OF a b c, of "''log''" 0 None] a b c show ?thesis
    by (simp add: new_events_def d lowest_free_3 write_flags_def call_defs)
qed

lemma redirect_to_file_result:
  "mode = REDIRECT_OUTPUT \<or> mode = REDIRECT_APPEND \<Longrightarrow>
     switch_result mode s (redirect_to_file flags fd target s)"
  by (auto simp: switch_result_def new_events_def redirect_to_file_def call_defs Let_def
      split_beta failed_call_def diagnostic_def known_mode_def)

lemma redirect_switch_result: "switch_result mode s (redirect_switch mode fd target fd2 s)"
proof (cases mode)
  case REDIRECT_INPUT
  then show ?thesis
    by (auto simp: switch_result_def new_events_def call_defs Let_def
      split_beta failed_call_def diagnostic_def known_mode_def)
next
  case REDIRECT_OUTPUT
  then show ?thesis using redirect_to_file_result [of mode] by simp
next
  case REDIRECT_APPEND
  then show ?thesis using redirect_to_file_result [of mode] by simp
next
  case REDIRECT_DUP
  then show ?thesis
    by (auto simp: switch_result_def new_events_def call_defs Let_def
      split_beta failed_call_def diagnostic_def known_mode_def)
next
  case (REDIRECT_OTHER m)
  then show ?thesis
    by (auto simp: switch_result_def new_events_def call_defs Let_def
      split_beta failed_call_def diagnostic_def known_mode_def)
qed


text \<open>
  C6. A redirection node forks once. In the child (\<^verbatim>\<open>fork\<close> answered 0) the switch
  satisfies \<open>switch_result\<close>: any failed \<^verbatim>\<open>open\<close> or \<^verbatim>\<open>dup2\<close> ends in a message and
  \<^verbatim>\<open>exit(1)\<close>, and the state the child leaves in is the one of the switch, so the wrapped
  node was not run; otherwise the wrapped node is run by \<^verbatim>\<open>run_command\<close> and, when that
  returns, the child leaves with \<^verbatim>\<open>exit(0)\<close>. In the parent the one child is waited for;
  a failed \<^verbatim>\<open>waitpid\<close> is followed by \<^verbatim>\<open>perror("waitpid")\<close> and the function returns.
\<close>

theorem redirect_wrapper:
  fixes child :: "node option" and fd fd2 :: int and mode :: redirect_mode
    and target :: string and s :: os_state
  defines "nd \<equiv> NODE_REDIRECT child fd mode target fd2"
  defines "s1 \<equiv> snd (sys_fork s)"
  defines "w \<equiv> redirect_switch mode fd target fd2 (snd (sys_fork s))"
  shows "(answers s = 0 # rest \<longrightarrow>
            trace s1 = trace s @ [Ev_fork 0]
            \<and> switch_result mode s1 w
            \<and> (fst w \<noteq> None \<longrightarrow> run_command (Some nd) s = (Exited 1, snd w))
            \<and> (fst w = None \<longrightarrow> run_command (Some nd) s =
                 (case run_command child (snd w) of
                    (Returned, s3) \<Rightarrow> (Exited 0, s3) | (out, s3) \<Rightarrow> (out, s3))))
     \<and> (answers s = pid # a # rest \<and> 0 < pid \<longrightarrow>
            fst (run_command (Some nd) s) = Returned
            \<and> trace (snd (run_command (Some nd) s)) =
                 trace s @ [Ev_fork pid, Ev_waitpid pid (if a < 0 then - 1 else pid)]
                   @ (if a < 0 then [Ev_perror ''waitpid''] else []))"
proof -
  have sr: "switch_result mode s1 w"
    unfolding w_def s1_def by (rule redirect_switch_result)
  have child: "answers s = 0 # rest \<longrightarrow>
            trace s1 = trace s @ [Ev_fork 0]
            \<and> (fst w \<noteq> None \<longrightarrow> run_command (Some nd) s = (Exited 1, snd w))
            \<and> (fst w = None \<longrightarrow> run_command (Some nd) s =
                 (case run_command child (snd w) of
                    (Returned, s3) \<Rightarrow> (Exited 0, s3) | (out, s3) \<Rightarrow> (out, s3)))"
  proof
    assume a: "answers s = 0 # rest"
    have f: "sys_fork s = (0, s1)"
      unfolding s1_def by (simp add: sys_fork_child [OF a])
    have t: "trace s1 = trace s @ [Ev_fork 0]"
      unfolding s1_def by (simp add: sys_fork_child [OF a])
    have one: "fst w \<noteq> None \<longrightarrow> fst w = Some 1"
      using sr unfolding switch_result_def Let_def by blast
    have w: "redirect_switch mode fd target fd2 s1 = w"
      by (simp only: w_def s1_def)
    show "trace s1 = trace s @ [Ev_fork 0]
            \<and> (fst w \<noteq> None \<longrightarrow> run_command (Some nd) s = (Exited 1, snd w))
            \<and> (fst w = None \<longrightarrow> run_command (Some nd) s =
                 (case run_command child (snd w) of
                    (Returned, s3) \<Rightarrow> (Exited 0, s3) | (out, s3) \<Rightarrow> (out, s3)))"
      using t one by (cases w) (auto simp: nd_def f w)
  qed
  have parent: "answers s = pid # a # rest \<and> 0 < pid \<longrightarrow>
            fst (run_command (Some nd) s) = Returned
            \<and> trace (snd (run_command (Some nd) s)) =
                 trace s @ [Ev_fork pid, Ev_waitpid pid (if a < 0 then - 1 else pid)]
                   @ (if a < 0 then [Ev_perror ''waitpid''] else [])"
    by (simp add: nd_def sys_fork_def sys_waitpid_def sys_perror_def next_answer_def log_event_def)
  from sr child parent show ?thesis by blast
qed


theorem redirect_wrapper_witness:
  "answers (shell_start [0, - 1] None) = 0 # [- 1]
   \<and> run_command (Some (NODE_REDIRECT (Some (NODE_COMMAND ''cat'' [''cat''])) (- 1) REDIRECT_INPUT ''missing'' 0))
        (shell_start [0, - 1] None) =
       (Exited 1, snd (redirect_switch REDIRECT_INPUT (- 1) ''missing'' 0
          (snd (sys_fork (shell_start [0, - 1] None)))))
   \<and> new_events (shell_start [0, - 1] None)
        (snd (redirect_switch REDIRECT_INPUT (- 1) ''missing'' 0
          (snd (sys_fork (shell_start [0, - 1] None))))) =
       [Ev_fork 0, Ev_open ''missing'' [O_RDONLY] None (- 1), Ev_perror ''missing'']
   \<and> answers (shell_start [9, - 1] None) = 9 # - 1 # [] \<and> (0::int) < 9
   \<and> fst (run_command (Some (NODE_REDIRECT None 1 REDIRECT_OUTPUT ''out'' 0))
        (shell_start [9, - 1] None)) = Returned
   \<and> new_events (shell_start [9, - 1] None)
        (snd (run_command (Some (NODE_REDIRECT None 1 REDIRECT_OUTPUT ''out'' 0))
          (shell_start [9, - 1] None))) =
       [Ev_fork 9, Ev_waitpid 9 (- 1), Ev_perror ''waitpid'']"
proof -
  have a: "answers (shell_start [0, - 1] None) = 0 # [- 1]" by (simp add: start_defs)
  have b: "fst (redirect_switch REDIRECT_INPUT (- 1) ''missing'' 0
          (snd (sys_fork (shell_start [0, - 1] None)))) \<noteq> None"
    by (simp add: start_defs run_defs Let_def)
  have c: "new_events (shell_start [0, - 1] None)
        (snd (redirect_switch REDIRECT_INPUT (- 1) ''missing'' 0
          (snd (sys_fork (shell_start [0, - 1] None))))) =
       [Ev_fork 0, Ev_open ''missing'' [O_RDONLY] None (- 1), Ev_perror ''missing'']"
    by (simp add: start_defs run_defs Let_def new_events_def)
  have d: "answers (shell_start [9, - 1] None) = 9 # - 1 # [] \<and> (0::int) < 9"
    by (simp add: start_defs)
  have e: "trace (shell_start [9, - 1] None) = trace (shell_start [9, - 1] None) @ xs \<longleftrightarrow> xs = []" for xs
    by simp
  from redirect_wrapper [of "shell_start [0, - 1] None" "[- 1]" "REDIRECT_INPUT" "- 1" "''missing''" 0
      "Some (NODE_COMMAND ''cat'' [''cat''])"] a b
  have f: "run_command (Some (NODE_REDIRECT (Some (NODE_COMMAND ''cat'' [''cat''])) (- 1) REDIRECT_INPUT ''missing'' 0))
        (shell_start [0, - 1] None) =
       (Exited 1, snd (redirect_switch REDIRECT_INPUT (- 1) ''missing'' 0
          (snd (sys_fork (shell_start [0, - 1] None)))))"
    by blast
  from redirect_wrapper [of "shell_start [9, - 1] None" "[]" "REDIRECT_OUTPUT" 1 "''out''" 0 None 9 "- 1"] d
  have g: "fst (run_command (Some (NODE_REDIRECT None 1 REDIRECT_OUTPUT ''out'' 0))
        (shell_start [9, - 1] None)) = Returned
     \<and> new_events (shell_start [9, - 1] None)
        (snd (run_command (Some (NODE_REDIRECT None 1 REDIRECT_OUTPUT ''out'' 0))
          (shell_start [9, - 1] None))) =
       [Ev_fork 9, Ev_waitpid 9 (- 1), Ev_perror ''waitpid'']"
    by (simp add: new_events_def)
  from a c d f g show ?thesis by blast
qed

text \<open>
  C10. In input mode the descriptor slot of the node is not read: two nodes that differ
  only in it behave alike, and the \<^verbatim>\<open>dup2\<close> after a successful \<^verbatim>\<open>open\<close> targets
  standard input.
\<close>

theorem redirect_input_ignores_fd:
  "run_command (Some (NODE_REDIRECT child fd REDIRECT_INPUT target fd2)) s =
     run_command (Some (NODE_REDIRECT child fd' REDIRECT_INPUT target fd2)) s
   \<and> (answers s = 0 # a # rest \<and> 0 \<le> a \<longrightarrow>
        (\<exists>rc. take 2 (new_events (snd (sys_fork s))
                   (snd (redirect_switch REDIRECT_INPUT fd target fd2 (snd (sys_fork s))))) =
           [Ev_open target [O_RDONLY] None (lowest_free (fds s)),
            Ev_dup2 (lowest_free (fds s)) STDIN_FILENO rc]))"
proof -
  have part2: "answers s = 0 # a # rest \<and> 0 \<le> a \<longrightarrow>
        (\<exists>rc. take 2 (new_events (snd (sys_fork s))
                   (snd (redirect_switch REDIRECT_INPUT fd target fd2 (snd (sys_fork s))))) =
           [Ev_open target [O_RDONLY] None (lowest_free (fds s)),
            Ev_dup2 (lowest_free (fds s)) STDIN_FILENO rc])"
  proof
    assume a: "answers s = 0 # a # rest \<and> 0 \<le> a"
    then have f: "sys_fork s = (0, log_event (Ev_fork 0) (s\<lparr>answers := a # rest, children := []\<rparr>))"
      by (simp add: sys_fork_child)
    have n: "answers s' = a # rest \<Longrightarrow> fst (next_answer s') = a" for s'
      by (rule next_answer_Cons)
    show "\<exists>rc. take 2 (new_events (snd (sys_fork s))
                   (snd (redirect_switch REDIRECT_INPUT fd target fd2 (snd (sys_fork s))))) =
           [Ev_open target [O_RDONLY] None (lowest_free (fds s)),
            Ev_dup2 (lowest_free (fds s)) STDIN_FILENO rc]"
      using a by (simp add: f n new_events_def call_defs Let_def split_beta)
  qed
  have eq: "redirect_switch REDIRECT_INPUT fd target fd2 =
      redirect_switch REDIRECT_INPUT fd' target fd2"
    by (simp add: fun_eq_iff)
  have part1: "run_command (Some (NODE_REDIRECT child fd REDIRECT_INPUT target fd2)) s =
     run_command (Some (NODE_REDIRECT child fd' REDIRECT_INPUT target fd2)) s"
    unfolding run_command.simps execute_redirect.simps eq by (rule refl)
  from part1 part2 show ?thesis by (rule conjI)
qed

theorem redirect_input_ignores_fd_witness:
  "answers (shell_start [0, 0, 0] None) = 0 # 0 # [0] \<and> (0::int) \<le> 0
   \<and> run_command (Some (NODE_REDIRECT None 5 REDIRECT_INPUT ''in.txt'' 0)) (shell_start [0, 0, 0] None) =
     run_command (Some (NODE_REDIRECT None (- 1) REDIRECT_INPUT ''in.txt'' 0)) (shell_start [0, 0, 0] None)
   \<and> new_events (shell_start [0, 0, 0] None)
        (snd (run_command (Some (NODE_REDIRECT None 5 REDIRECT_INPUT ''in.txt'' 0))
           (shell_start [0, 0, 0] None))) =
        [Ev_fork 0, Ev_open ''in.txt'' [O_RDONLY] None 3, Ev_dup2 3 0 0, Ev_close 3]"
proof -
  have a: "answers (shell_start [0, 0, 0] None) = 0 # 0 # [0] \<and> (0::int) \<le> 0"
    by (simp add: start_defs)
  have b: "new_events (shell_start [0, 0, 0] None)
        (snd (run_command (Some (NODE_REDIRECT None 5 REDIRECT_INPUT ''in.txt'' 0))
           (shell_start [0, 0, 0] None))) =
        [Ev_fork 0, Ev_open ''in.txt'' [O_RDONLY] None 3, Ev_dup2 3 0 0, Ev_close 3]"
    by (simp add: start_defs new_events_def sys_fork_def call_defs next_answer_def Let_def
        lowest_free_3)
  from a b redirect_input_ignores_fd [of None 5 "''in.txt''" 0 "shell_start [0, 0, 0] None" "- 1" 0 "[0]"]
  show ?thesis by blast
qed


subsection \<open>The loops of the pipeline\<close>

lemma next_answer_eq:
  "next_answer s = ((case answers s of [] \<Rightarrow> 0 | a # _ \<Rightarrow> a), s\<lparr>answers := tl (answers s)\<rparr>)"
  by (simp add: next_answer_def split: list.splits)

lemma length_alloc_pipes [simp]: "length (alloc_pipes k open_fds) = k"
  by (induction k arbitrary: open_fds) (simp_all add: Let_def)

lemma alloc_pipes_fresh:
  "distinct (pipe_fds (alloc_pipes k open_fds))
   \<and> set (pipe_fds (alloc_pipes k open_fds)) \<inter> set open_fds = {}"
proof (induction k arbitrary: open_fds)
  case 0
  show ?case by (simp add: pipe_fds_def)
next
  case (Suc k)
  let ?r = "lowest_free open_fds"
  let ?w = "lowest_free (?r # open_fds)"
  have r: "?r \<notin> set open_fds" using lowest_free_fresh [of open_fds] by simp
  have w: "?w \<notin> set (?r # open_fds)" using lowest_free_fresh [of "?r # open_fds"] by blast
  have ih: "distinct (pipe_fds (alloc_pipes k (?w # ?r # open_fds)))
     \<and> set (pipe_fds (alloc_pipes k (?w # ?r # open_fds))) \<inter> set (?w # ?r # open_fds) = {}"
    by (rule Suc.IH)
  have unfold: "pipe_fds (alloc_pipes (Suc k) open_fds) =
      ?r # ?w # pipe_fds (alloc_pipes k (?w # ?r # open_fds))"
    by (simp add: pipe_fds_def Let_def)
  show ?case unfolding unfold using r w ih by auto
qed

lemma sys_pipe_ok:
  assumes "succeed (Suc k) (answers s)"
  shows "sys_pipe s =
     (Some (lowest_free (fds s), lowest_free (lowest_free (fds s) # fds s)),
      s\<lparr>trace := trace s @ [Ev_pipe (Some (lowest_free (fds s), lowest_free (lowest_free (fds s) # fds s)))],
        answers := tl (answers s),
        fds := lowest_free (lowest_free (fds s) # fds s) # lowest_free (fds s) # fds s\<rparr>)"
proof -
  have "\<not> fst (next_answer s) < 0" using assms by (rule succeed_head) simp
  then show ?thesis
    by (simp add: sys_pipe_def Let_def split_beta log_event_def next_answer_eq)
qed

lemma create_pipes_ok:
  "succeed k (answers s) \<Longrightarrow>
     create_pipes k acc s =
       (Some (acc @ alloc_pipes k (fds s)),
        s\<lparr>trace := trace s @ pipe_events (alloc_pipes k (fds s)),
          answers := drop k (answers s),
          fds := rev (pipe_fds (alloc_pipes k (fds s))) @ fds s\<rparr>)"
proof (induction k arbitrary: acc s)
  case 0
  show ?case by (simp add: pipe_events_def pipe_fds_def)
next
  case (Suc k)
  have tl: "succeed k (tl (answers s))" using succeed_tl [OF Suc.prems] by simp
  show ?case
    by (simp add: sys_pipe_ok [OF Suc.prems] Suc.IH tl Let_def pipe_events_def pipe_fds_def
        drop_Suc)
qed

lemma close_pipes_fields [simp]:
  "trace (close_pipes ps s) = trace s @ close_events ps"
  "fds (close_pipes ps s) = filter (\<lambda>fd. fd \<notin> set (pipe_fds ps)) (fds s)"
  "answers (close_pipes ps s) = answers s"
  "children (close_pipes ps s) = children s"
  "sigs (close_pipes ps s) = sigs s"
proof (induction ps arbitrary: s)
  case Nil
  {
    case 1 show ?case by (simp add: close_events_def)
  next
    case 2 show ?case by (simp add: pipe_fds_def)
  next
    case 3 show ?case by simp
  next
    case 4 show ?case by simp
  next
    case 5 show ?case by simp
  }
next
  case (Cons p ps)
  {
    case 1 show ?case by (simp add: Cons.IH close_events_def sys_close_def)
  next
    case 2 show ?case
      by (auto simp: Cons.IH pipe_fds_def sys_close_def removeAll_filter_not_eq
          intro!: filter_cong)
  next
    case 3 show ?case by (simp add: Cons.IH sys_close_def)
  next
    case 4 show ?case by (simp add: Cons.IH sys_close_def)
  next
    case 5 show ?case by (simp add: Cons.IH sys_close_def)
  }
qed


lemma wait_all_fields [simp]:
  "trace (wait_all pids s) = trace s @ wait_events pids (answers s)"
  "fds (wait_all pids s) = fds s"
  by (induction pids arbitrary: s)
    (simp_all add: sys_waitpid_def next_answer_eq Let_def split_beta)

lemma wait_all_children:
  "succeed (length pids) (answers s) \<Longrightarrow>
     children (wait_all pids s) = filter (\<lambda>c. c \<notin> set pids) (children s)"
proof (induction pids arbitrary: s)
  case Nil
  show ?case by simp
next
  case (Cons p pids)
  from Cons.prems have ok: "succeed (Suc (length pids)) (answers s)" by simp
  have n: "\<not> fst (next_answer s) < 0" using ok by (rule succeed_head) simp
  have tl: "succeed (length pids) (tl (answers s))" using succeed_tl [OF ok] by simp
  have w: "sys_waitpid p s =
      (p, log_event (Ev_waitpid p p) ((snd (next_answer s))\<lparr>children := removeAll p (children s)\<rparr>))"
    using n by (simp add: sys_waitpid_def Let_def split_beta)
  show ?case
    by (auto simp: w Cons.IH tl removeAll_filter_not_eq intro!: filter_cong)
qed

lemma sys_fork_parent:
  "answers s = p # rest \<Longrightarrow> 0 < p \<Longrightarrow>
     sys_fork s = (p, s\<lparr>trace := trace s @ [Ev_fork p], answers := rest,
                         children := children s @ [p]\<rparr>)"
  by (simp add: sys_fork_def next_answer_def log_event_def)

lemma fork_stages_parent:
  "answers s = pids @ rest \<Longrightarrow> length pids = length parts \<Longrightarrow> \<forall>p \<in> set pids. 0 < p \<Longrightarrow>
     fork_stages ps n i acc parts s =
       (Returned, wait_all (acc @ pids) (close_pipes ps (forked pids s)))"
proof (induction parts arbitrary: pids i acc s)
  case Nil
  have "forked [] s = s" by (simp add: forked_def)
  with Nil show ?case by simp
next
  case (Cons cmd parts)
  from Cons.prems obtain p pids' where pids: "pids = p # pids'"
    by (cases pids) auto
  with Cons.prems have p: "0 < p" and a: "answers s = p # (pids' @ rest)"
    and l: "length pids' = length parts" and pos: "\<forall>q \<in> set pids'. 0 < q"
    by auto
  let ?s1 = "s\<lparr>trace := trace s @ [Ev_fork p], answers := pids' @ rest,
                 children := children s @ [p]\<rparr>"
  have f: "sys_fork s = (p, ?s1)" using a p by (rule sys_fork_parent)
  have a1: "answers ?s1 = pids' @ rest" by simp
  have fk: "forked pids' ?s1 = forked pids s"
    by (simp add: forked_def pids a)
  show ?case
    using p by (simp add: f Cons.IH [OF a1 l pos] fk pids)
qed


lemma pipe_end_in_pipe_fds: "p \<in> set ps \<Longrightarrow> fst p \<in> set (pipe_fds ps) \<and> snd p \<in> set (pipe_fds ps)"
  by (auto simp: pipe_fds_def)

lemma succeed_prefix: "\<forall>a \<in> set prc. 0 \<le> a \<Longrightarrow> succeed (length prc) (prc @ rest)"
  by (simp add: succeed_def)

lemma fork_stages_child:
  "answers s = pids @ 0 # rest \<Longrightarrow> parts = pre @ cmd # post \<Longrightarrow> length pre = length pids \<Longrightarrow>
   \<forall>p \<in> set pids. 0 < p \<Longrightarrow>
     fork_stages ps n i acc parts s =
       (let s4 = wire_stage ps n (i + length pids) (snd (sys_fork (forked pids s)))
        in case cmd of
             NODE_COMMAND program argv \<Rightarrow>
               (let (replaced, s5) = sys_execvp program argv s4 in
                if replaced then (Execed program argv, s5)
                else (Exited 1, sys_perror program s5))
           | _ \<Rightarrow>
               (case run_command (Some cmd) s4 of
                  (Returned, s5) \<Rightarrow> (Exited 0, s5)
                | (out, s5) \<Rightarrow> (out, s5)))"
proof (induction pre arbitrary: pids parts i acc s)
  case Nil
  then have pids: "pids = []" and parts: "parts = cmd # post" and a: "answers s = 0 # rest"
    by auto
  have fk: "forked [] s = s" by (simp add: forked_def)
  have f: "fst (sys_fork s) = 0" using a by (simp add: sys_fork_child)
  show ?case
    unfolding parts pids fk fork_stages.simps using f
    by (simp add: split_beta Let_def)
next
  case (Cons c pre)
  from Cons.prems obtain p pids' where pids: "pids = p # pids'"
    by (cases pids) auto
  with Cons.prems have p: "0 < p" and a: "answers s = p # (pids' @ 0 # rest)"
    and parts: "parts = c # (pre @ cmd # post)"
    and l: "length pre = length pids'" and pos: "\<forall>q \<in> set pids'. 0 < q"
    by auto
  let ?s1 = "s\<lparr>trace := trace s @ [Ev_fork p], answers := pids' @ 0 # rest,
                 children := children s @ [p]\<rparr>"
  have f: "sys_fork s = (p, ?s1)" using a p by (rule sys_fork_parent)
  have a1: "answers ?s1 = pids' @ 0 # rest" by simp
  have fk: "forked pids' ?s1 = forked pids s"
    by (simp add: forked_def pids a)
  have ih: "fork_stages ps n (Suc i) (acc @ [p]) (pre @ cmd # post) ?s1 =
       (let s4 = wire_stage ps n (Suc i + length pids') (snd (sys_fork (forked pids' ?s1)))
        in case cmd of
             NODE_COMMAND program argv \<Rightarrow>
               (let (replaced, s5) = sys_execvp program argv s4 in
                if replaced then (Execed program argv, s5)
                else (Exited 1, sys_perror program s5))
           | _ \<Rightarrow>
               (case run_command (Some cmd) s4 of
                  (Returned, s5) \<Rightarrow> (Exited 0, s5)
                | (out, s5) \<Rightarrow> (out, s5)))"
    using a1 refl l pos by (rule Cons.IH)
  have step: "fork_stages ps n i acc parts s =
      fork_stages ps n (Suc i) (acc @ [p]) (pre @ cmd # post) ?s1"
    unfolding parts fork_stages.simps f using p by simp
  show ?case
    unfolding step ih fk by (simp add: pids)
qed


lemma sys_dup2_trace: "\<exists>rc. trace (snd (sys_dup2 a b s)) = trace s @ [Ev_dup2 a b rc]"
  by (simp add: sys_dup2_def Let_def split_beta)

lemma wire_stage_trace:
  "\<exists>rc_in rc_out. trace (wire_stage ps n i s1) =
     trace s1
       @ (if 0 < i then [Ev_dup2 (fst (ps ! (i - 1))) STDIN_FILENO rc_in] else [])
       @ (if i < n - 1 then [Ev_dup2 (snd (ps ! i)) STDOUT_FILENO rc_out] else [])
       @ close_events ps"
proof -
  let ?s2 = "if 0 < i then snd (sys_dup2 (fst (ps ! (i - 1))) STDIN_FILENO s1) else s1"
  let ?s3 = "if i < n - 1 then snd (sys_dup2 (snd (ps ! i)) STDOUT_FILENO ?s2) else ?s2"
  have "\<exists>rc_in. trace ?s2 =
      trace s1 @ (if 0 < i then [Ev_dup2 (fst (ps ! (i - 1))) STDIN_FILENO rc_in] else [])"
    using sys_dup2_trace [of "fst (ps ! (i - 1))" STDIN_FILENO s1] by simp
  then obtain rc_in where 1: "trace ?s2 =
      trace s1 @ (if 0 < i then [Ev_dup2 (fst (ps ! (i - 1))) STDIN_FILENO rc_in] else [])"
    by blast
  have "\<exists>rc_out. trace ?s3 =
      trace ?s2 @ (if i < n - 1 then [Ev_dup2 (snd (ps ! i)) STDOUT_FILENO rc_out] else [])"
    using sys_dup2_trace [of "snd (ps ! i)" STDOUT_FILENO ?s2] by simp
  then obtain rc_out where 2: "trace ?s3 =
      trace ?s2 @ (if i < n - 1 then [Ev_dup2 (snd (ps ! i)) STDOUT_FILENO rc_out] else [])"
    by blast
  have "trace (wire_stage ps n i s1) = trace ?s3 @ close_events ps"
    by (simp add: wire_stage_def Let_def)
  with 1 2 show ?thesis by (metis append_assoc)
qed

subsection \<open>Pipelines\<close>

text \<open>
  C1, at a pipeline of three commands whose second \<^verbatim>\<open>pipe\<close> fails: \<^verbatim>\<open>execute_pipe\<close>
  returns after \<^verbatim>\<open>perror("pipe")\<close> without a \<^verbatim>\<open>fork\<close>, and without a \<^verbatim>\<open>close\<close>: the two
  descriptors of the first pipe stay open in the shell.
\<close>

theorem pipe_failure_leaks_first_pipe:
  "(let s = shell_start [0, - 1] None;
        r = run_command (Some (NODE_PIPE [NODE_COMMAND ''a'' [''a''], NODE_COMMAND ''b'' [''b''],
                                          NODE_COMMAND ''c'' [''c'']])) s
    in fst r = Returned
       \<and> new_events s (snd r) = [Ev_pipe (Some (3, 4)), Ev_pipe None, Ev_perror ''pipe'']
       \<and> fds s = [0, 1, 2] \<and> fds (snd r) = [4, 3, 0, 1, 2])"
  by (simp add: start_defs run_defs Let_def new_events_def lowest_free_3 lowest_free_4
      numeral_3_eq_3)

text \<open>
  C2, at a pipeline of two commands followed into the child of its first stage, and at a
  redirection followed into its wrapper child: neither child calls \<^verbatim>\<open>signal\<close>, and the
  three signals are still ignored when the stage is exec'd and when the wrapper child
  exits. The child of a single command does restore the defaults.
\<close>

theorem pipeline_and_redirect_children_keep_signals_ignored:
  "(let s = shell_start [0, 0, 0] None;
        r = run_command (Some (NODE_PIPE [NODE_COMMAND ''a'' [''a''], NODE_COMMAND ''b'' [''b'']])) s
    in fst r = Execed ''a'' [''a'']
       \<and> new_events s (snd r) =
           [Ev_pipe (Some (3, 4)), Ev_fork 0, Ev_dup2 4 1 1, Ev_close 3, Ev_close 4,
            Ev_execvp ''a'' [''a'']]
       \<and> map (sigs (snd r)) [SIGINT, SIGQUIT, SIGTSTP] = [SIG_IGN, SIG_IGN, SIG_IGN])
   \<and> (let s = shell_start [0, 0, 0] None;
        r = run_command (Some (NODE_REDIRECT (Some (NODE_SUBSHELL None)) 1 REDIRECT_OUTPUT ''out'' 0)) s
    in fst r = Exited 0
       \<and> new_events s (snd r) =
           [Ev_fork 0, Ev_open ''out'' [O_WRONLY, O_CREAT, O_TRUNC] (Some 420) 3, Ev_dup2 3 1 1, Ev_close 3,
            Ev_fprintf ''not yet implemented\<newline>'' []]
       \<and> map (sigs (snd r)) [SIGINT, SIGQUIT, SIGTSTP] = [SIG_IGN, SIG_IGN, SIG_IGN])
   \<and> (let s = shell_start [0, 0] None;
        r = run_command (Some (NODE_COMMAND ''a'' [''a''])) s
    in fst r = Execed ''a'' [''a'']
       \<and> map (sigs (snd r)) [SIGINT, SIGQUIT, SIGTSTP] = [SIG_DFL, SIG_DFL, SIG_DFL])"
  by (simp add: start_defs run_defs redirect_to_file_def Let_def new_events_def
      lowest_free_3 lowest_free_4 numeral_2_eq_2)

text \<open>
  C3. In a pipeline of \<open>n\<close> stages whose pipes were all created and whose first \<open>i\<close>
  forks succeeded, the child of stage \<open>i\<close> (\<^verbatim>\<open>fork\<close> answered 0) makes these calls and
  no others before it runs its stage: \<^verbatim>\<open>dup2\<close> of the read end of pipe \<open>i - 1\<close> onto
  standard input exactly when \<open>0 < i\<close>, \<^verbatim>\<open>dup2\<close> of the write end of pipe \<open>i\<close> onto
  standard output exactly when \<open>i < n - 1\<close>, then \<^verbatim>\<open>close\<close> of both ends of every pipe.
  The pipes are those the \<^verbatim>\<open>pipe\<close> calls returned, taken by position; the pids of the
  earlier stages play no part. A stage that is a command is then given to \<^verbatim>\<open>execvp\<close>,
  with \<^verbatim>\<open>perror\<close> and \<^verbatim>\<open>exit(1)\<close> when that fails; any other stage is run by
  \<^verbatim>\<open>run_command\<close> and the child leaves with \<^verbatim>\<open>exit(0)\<close> when that returns.
\<close>

theorem pipeline_stage_child:
  fixes parts :: "node list" and s :: os_state and prc pids rest :: "int list" and i :: nat
  defines "n \<equiv> length parts"
  defines "ps \<equiv> alloc_pipes (n - 1) (fds s)"
  defines "s4 \<equiv> wire_stage ps n i
                   (snd (sys_fork (forked pids (snd (create_pipes (n - 1) [] s)))))"
  assumes i: "i < length parts"
    and ans: "answers s = prc @ pids @ 0 # rest"
    and prc: "length prc = n - 1" "\<forall>a \<in> set prc. 0 \<le> a"
    and pids: "length pids = i" "\<forall>p \<in> set pids. 0 < p"
  shows "(\<exists>rc_in rc_out. trace s4 =
            trace s @ pipe_events ps @ map Ev_fork pids @ [Ev_fork 0]
              @ (if 0 < i then [Ev_dup2 (fst (ps ! (i - 1))) STDIN_FILENO rc_in] else [])
              @ (if i < n - 1 then [Ev_dup2 (snd (ps ! i)) STDOUT_FILENO rc_out] else [])
              @ close_events ps)
    \<and> run_command (Some (NODE_PIPE parts)) s =
        (case parts ! i of
           NODE_COMMAND program argv \<Rightarrow>
             (let (replaced, s5) = sys_execvp program argv s4 in
              if replaced then (Execed program argv, s5)
              else (Exited 1, sys_perror program s5))
         | other \<Rightarrow>
             (case run_command (Some other) s4 of
                (Returned, s5) \<Rightarrow> (Exited 0, s5)
              | (out, s5) \<Rightarrow> (out, s5)))"
proof -
  let ?s1 = "s\<lparr>trace := trace s @ pipe_events ps, answers := drop (n - 1) (answers s),
                 fds := rev (pipe_fds ps) @ fds s\<rparr>"
  have ok: "succeed (n - 1) (answers s)"
    unfolding ans using succeed_prefix [OF prc(2)] prc(1) by simp
  have cp: "create_pipes (n - 1) [] s = (Some ps, ?s1)"
    using create_pipes_ok [OF ok, of "[]"] by (simp add: ps_def)
  have a1: "answers ?s1 = pids @ 0 # rest" using ans prc(1) by simp
  have split: "parts = take i parts @ parts ! i # drop (Suc i) parts"
    using i by (rule id_take_nth_drop)
  have len: "length (take i parts) = length pids" using i pids(1) by simp
  have s4: "s4 = wire_stage ps n (0 + length pids) (snd (sys_fork (forked pids ?s1)))"
    unfolding s4_def cp using pids(1) by simp
  have fs: "fork_stages ps n 0 [] parts ?s1 =
       (let s4 = wire_stage ps n (0 + length pids) (snd (sys_fork (forked pids ?s1)))
        in case parts ! i of
             NODE_COMMAND program argv \<Rightarrow>
               (let (replaced, s5) = sys_execvp program argv s4 in
                if replaced then (Execed program argv, s5)
                else (Exited 1, sys_perror program s5))
           | _ \<Rightarrow>
               (case run_command (Some (parts ! i)) s4 of
                  (Returned, s5) \<Rightarrow> (Exited 0, s5)
                | (out, s5) \<Rightarrow> (out, s5)))"
    using a1 split len pids(2) by (rule fork_stages_child)
  have run: "run_command (Some (NODE_PIPE parts)) s = fork_stages ps n 0 [] parts ?s1"
    using cp by (simp add: n_def Let_def)
  have beh: "run_command (Some (NODE_PIPE parts)) s =
        (case parts ! i of
           NODE_COMMAND program argv \<Rightarrow>
             (let (replaced, s5) = sys_execvp program argv s4 in
              if replaced then (Execed program argv, s5)
              else (Exited 1, sys_perror program s5))
         | other \<Rightarrow>
             (case run_command (Some other) s4 of
                (Returned, s5) \<Rightarrow> (Exited 0, s5)
              | (out, s5) \<Rightarrow> (out, s5)))"
    unfolding run fs s4 Let_def by (cases "parts ! i") simp_all
  have af: "answers (forked pids ?s1) = 0 # rest" using a1 by (simp add: forked_def)
  have tf: "trace (snd (sys_fork (forked pids ?s1))) =
      trace s @ pipe_events ps @ map Ev_fork pids @ [Ev_fork 0]"
    unfolding sys_fork_child [OF af] by (simp add: forked_def)
  have "\<exists>rc_in rc_out. trace s4 =
     trace (snd (sys_fork (forked pids ?s1)))
       @ (if 0 < i then [Ev_dup2 (fst (ps ! (i - 1))) STDIN_FILENO rc_in] else [])
       @ (if i < n - 1 then [Ev_dup2 (snd (ps ! i)) STDOUT_FILENO rc_out] else [])
       @ close_events ps"
    unfolding s4 using wire_stage_trace [of ps n i "snd (sys_fork (forked pids ?s1))"] pids(1)
    by simp
  then obtain rc_in rc_out where "trace s4 =
     trace (snd (sys_fork (forked pids ?s1)))
       @ (if 0 < i then [Ev_dup2 (fst (ps ! (i - 1))) STDIN_FILENO rc_in] else [])
       @ (if i < n - 1 then [Ev_dup2 (snd (ps ! i)) STDOUT_FILENO rc_out] else [])
       @ close_events ps"
    by blast
  then have "trace s4 =
            trace s @ pipe_events ps @ map Ev_fork pids @ [Ev_fork 0]
              @ (if 0 < i then [Ev_dup2 (fst (ps ! (i - 1))) STDIN_FILENO rc_in] else [])
              @ (if i < n - 1 then [Ev_dup2 (snd (ps ! i)) STDOUT_FILENO rc_out] else [])
              @ close_events ps"
    unfolding tf by simp
  then have "\<exists>rc_in rc_out. trace s4 =
            trace s @ pipe_events ps @ map Ev_fork pids @ [Ev_fork 0]
              @ (if 0 < i then [Ev_dup2 (fst (ps ! (i - 1))) STDIN_FILENO rc_in] else [])
              @ (if i < n - 1 then [Ev_dup2 (snd (ps ! i)) STDOUT_FILENO rc_out] else [])
              @ close_events ps"
    by blast
  with beh show ?thesis by (rule conjI [rotated])
qed


theorem pipeline_stage_child_witness:
  "(let parts = [NODE_COMMAND ''printf'' [''printf'', ''a''], NODE_COMMAND ''grep'' [''grep'', ''b''],
                 NODE_COMMAND ''wc'' [''wc'', ''-l'']];
        s = shell_start [0, 0, 10, 0, 0, 0, 0] None;
        r = run_command (Some (NODE_PIPE parts)) s
    in (1::nat) < length parts
       \<and> answers s = [0, 0] @ [10] @ 0 # [0, 0, 0]
       \<and> length [0, 0 :: int] = length parts - 1 \<and> (\<forall>a \<in> set [0, 0 :: int]. 0 \<le> a)
       \<and> length [10 :: int] = 1 \<and> (\<forall>p \<in> set [10 :: int]. 0 < p)
       \<and> fst r = Execed ''grep'' [''grep'', ''b'']
       \<and> new_events s (snd r) =
           [Ev_pipe (Some (3, 4)), Ev_pipe (Some (5, 6)), Ev_fork 10, Ev_fork 0,
            Ev_dup2 3 0 0, Ev_dup2 6 1 1,
            Ev_close 3, Ev_close 4, Ev_close 5, Ev_close 6,
            Ev_execvp ''grep'' [''grep'', ''b'']])"
proof -
  let ?parts = "[NODE_COMMAND ''printf'' [''printf'', ''a''], NODE_COMMAND ''grep'' [''grep'', ''b''],
                 NODE_COMMAND ''wc'' [''wc'', ''-l'']]"
  let ?s = "shell_start [0, 0, 10, 0, 0, 0, 0] None"
  have i: "(1::nat) < length ?parts" by simp
  have a: "answers ?s = [0, 0] @ [10] @ 0 # [0, 0, 0]" by (simp add: start_defs)
  have b: "length [0, 0 :: int] = length ?parts - 1" by simp
  have c: "\<forall>a \<in> set [0, 0 :: int]. 0 \<le> a" by simp
  have d: "length [10 :: int] = 1" by simp
  have e: "\<forall>p \<in> set [10 :: int]. 0 < p" by simp
  have h: "lowest_free [4, 3, 0, 1, 2] = 5" "lowest_free [5, 4, 3, 0, 1, 2] = 6"
    by (simp_all add: lowest_free_def upto.simps)
  have run: "run_command (Some (NODE_PIPE ?parts)) ?s =
      (case ?parts ! 1 of
           NODE_COMMAND program argv \<Rightarrow>
             (let (replaced, s5) = sys_execvp program argv
                 (wire_stage (alloc_pipes (length ?parts - 1) (fds ?s)) (length ?parts) 1
                   (snd (sys_fork (forked [10] (snd (create_pipes (length ?parts - 1) [] ?s))))))
              in if replaced then (Execed program argv, s5)
                 else (Exited 1, sys_perror program s5))
         | other \<Rightarrow>
             (case run_command (Some other)
                 (wire_stage (alloc_pipes (length ?parts - 1) (fds ?s)) (length ?parts) 1
                   (snd (sys_fork (forked [10] (snd (create_pipes (length ?parts - 1) [] ?s)))))) of
                (Returned, s5) \<Rightarrow> (Exited 0, s5)
              | (out, s5) \<Rightarrow> (out, s5)))"
    using pipeline_stage_child [OF i a b c d e] by (rule conjunct2)
  have ev: "fst (run_command (Some (NODE_PIPE ?parts)) ?s) = Execed ''grep'' [''grep'', ''b'']
       \<and> new_events ?s (snd (run_command (Some (NODE_PIPE ?parts)) ?s)) =
           [Ev_pipe (Some (3, 4)), Ev_pipe (Some (5, 6)), Ev_fork 10, Ev_fork 0,
            Ev_dup2 3 0 0, Ev_dup2 6 1 1,
            Ev_close 3, Ev_close 4, Ev_close 5, Ev_close 6,
            Ev_execvp ''grep'' [''grep'', ''b'']]"
    unfolding run
    by (simp add: start_defs run_defs forked_def Let_def new_events_def h lowest_free_3
        lowest_free_4 numeral_2_eq_2 numeral_3_eq_3)
  from i a b c d e ev show ?thesis by (simp add: Let_def del: run_command.simps)
qed

text \<open>
  C4. In a pipeline whose pipes were all created and whose forks all succeeded, the
  parent, after the last \<^verbatim>\<open>fork\<close>, closes both ends of every pipe and then calls
  \<^verbatim>\<open>waitpid\<close> on every child, in that order, and returns. The open descriptors of the
  shell are then those it had before and none of the pipes is among them; when the
  \<^verbatim>\<open>waitpid\<close> calls succeed, none of the children of the pipeline is left to reap.
\<close>

theorem pipeline_parent:
  fixes parts :: "node list" and s :: os_state and prc pids rest :: "int list"
  defines "n \<equiv> length parts"
  defines "ps \<equiv> alloc_pipes (n - 1) (fds s)"
  defines "r \<equiv> run_command (Some (NODE_PIPE parts)) s"
  assumes ans: "answers s = prc @ pids @ rest"
    and prc: "length prc = n - 1" "\<forall>a \<in> set prc. 0 \<le> a"
    and pids: "length pids = n" "\<forall>p \<in> set pids. 0 < p"
  shows "fst r = Returned
    \<and> trace (snd r) =
        trace s @ pipe_events ps @ map Ev_fork pids @ close_events ps @ wait_events pids rest
    \<and> fds (snd r) = fds s
    \<and> (\<forall>p \<in> set ps. fst p \<notin> set (fds (snd r)) \<and> snd p \<notin> set (fds (snd r)))
    \<and> (succeed n rest \<longrightarrow>
         children (snd r) = filter (\<lambda>c. c \<notin> set pids) (children s)
         \<and> (\<forall>p \<in> set pids. p \<notin> set (children (snd r))))"
proof -
  let ?s1 = "s\<lparr>trace := trace s @ pipe_events ps, answers := drop (n - 1) (answers s),
                 fds := rev (pipe_fds ps) @ fds s\<rparr>"
  have ok: "succeed (n - 1) (answers s)"
    unfolding ans using succeed_prefix [OF prc(2)] prc(1) by simp
  have cp: "create_pipes (n - 1) [] s = (Some ps, ?s1)"
    using create_pipes_ok [OF ok, of "[]"] by (simp add: ps_def)
  have a1: "answers ?s1 = pids @ rest" using ans prc(1) by simp
  have len: "length pids = length parts" using pids(1) by (simp add: n_def)
  have fs: "fork_stages ps n 0 [] parts ?s1 =
      (Returned, wait_all ([] @ pids) (close_pipes ps (forked pids ?s1)))"
    using a1 len pids(2) by (rule fork_stages_parent)
  have r: "r = (Returned, wait_all pids (close_pipes ps (forked pids ?s1)))"
    unfolding r_def using cp fs by (simp add: n_def)
  have fresh: "set (pipe_fds ps) \<inter> set (fds s) = {}"
    unfolding ps_def using alloc_pipes_fresh by blast
  have keep: "filter (\<lambda>fd. fd \<notin> set (pipe_fds ps)) (fds s) = fds s"
    using fresh by (auto simp: filter_id_conv)
  have fds: "fds (snd r) = fds s"
    unfolding r by (simp add: forked_def keep)
  have tr: "trace (snd r) =
        trace s @ pipe_events ps @ map Ev_fork pids @ close_events ps @ wait_events pids rest"
    unfolding r using a1 by (simp add: forked_def)
  have closed: "\<forall>p \<in> set ps. fst p \<notin> set (fds (snd r)) \<and> snd p \<notin> set (fds (snd r))"
    unfolding fds using fresh pipe_end_in_pipe_fds by blast
  have reap: "succeed n rest \<longrightarrow>
         children (snd r) = filter (\<lambda>c. c \<notin> set pids) (children s)
         \<and> (\<forall>p \<in> set pids. p \<notin> set (children (snd r)))"
  proof
    assume "succeed n rest"
    then have "succeed (length pids) (answers (close_pipes ps (forked pids ?s1)))"
      using a1 pids(1) by (simp add: forked_def)
    then have "children (snd r) = filter (\<lambda>c. c \<notin> set pids) (children s)"
      unfolding r by (simp add: wait_all_children forked_def)
    then show "children (snd r) = filter (\<lambda>c. c \<notin> set pids) (children s)
         \<and> (\<forall>p \<in> set pids. p \<notin> set (children (snd r)))"
      by simp
  qed
  from r tr fds closed reap show ?thesis by simp
qed


theorem pipeline_parent_witness:
  "(let parts = [NODE_COMMAND ''printf'' [''printf'', ''a''], NODE_COMMAND ''grep'' [''grep'', ''b''],
                 NODE_COMMAND ''wc'' [''wc'', ''-l'']];
        s = shell_start [0, 0, 10, 11, 12, 10, 11, 12] None;
        r = run_command (Some (NODE_PIPE parts)) s
    in answers s = [0, 0] @ [10, 11, 12] @ [10, 11, 12]
       \<and> length [0, 0 :: int] = length parts - 1 \<and> (\<forall>a \<in> set [0, 0 :: int]. 0 \<le> a)
       \<and> length [10, 11, 12 :: int] = length parts \<and> (\<forall>p \<in> set [10, 11, 12 :: int]. 0 < p)
       \<and> succeed (length parts) [10, 11, 12]
       \<and> fst r = Returned
       \<and> new_events s (snd r) =
           [Ev_pipe (Some (3, 4)), Ev_pipe (Some (5, 6)), Ev_fork 10, Ev_fork 11, Ev_fork 12,
            Ev_close 3, Ev_close 4, Ev_close 5, Ev_close 6,
            Ev_waitpid 10 10, Ev_waitpid 11 11, Ev_waitpid 12 12]
       \<and> fds (snd r) = [0, 1, 2] \<and> children (snd r) = [])"
proof -
  let ?parts = "[NODE_COMMAND ''printf'' [''printf'', ''a''], NODE_COMMAND ''grep'' [''grep'', ''b''],
                 NODE_COMMAND ''wc'' [''wc'', ''-l'']]"
  let ?s = "shell_start [0, 0, 10, 11, 12, 10, 11, 12] None"
  have a: "answers ?s = [0, 0] @ [10, 11, 12] @ [10, 11, 12]" by (simp add: start_defs)
  have b: "length [0, 0 :: int] = length ?parts - 1" by simp
  have c: "\<forall>a \<in> set [0, 0 :: int]. 0 \<le> a" by simp
  have d: "length [10, 11, 12 :: int] = length ?parts" by simp
  have e: "\<forall>p \<in> set [10, 11, 12 :: int]. 0 < p" by simp
  have f: "succeed (length ?parts) [10, 11, 12]" by (simp add: succeed_def)
  have g: "fds ?s = [0, 1, 2]" "children ?s = []" by (simp_all add: start_defs)
  have h: "lowest_free [4, 3, 0, 1, 2] = 5" "lowest_free [5, 4, 3, 0, 1, 2] = 6"
    by (simp_all add: lowest_free_def upto.simps)
  from pipeline_parent [OF a b c d e] a b c d e f
  show ?thesis
    by (simp add: Let_def new_events_def g h lowest_free_3 lowest_free_4 pipe_events_def
        close_events_def del: run_command.simps)
qed


subsection \<open>Sequences\<close>

lemma trace_mono_calls:
  "set (trace s) \<subseteq> set (trace (snd (sys_fork s)))"
  "set (trace s) \<subseteq> set (trace (snd (sys_dup2 a b s)))"
  "set (trace s) \<subseteq> set (trace (snd (sys_execvp p av s)))"
  "set (trace s) \<subseteq> set (trace (snd (sys_waitpid pid s)))"
  "set (trace s) \<subseteq> set (trace (snd (sys_chdir path s)))"
  "set (trace s) \<subseteq> set (trace (snd (sys_pipe s)))"
  "set (trace s) \<subseteq> set (trace (sys_perror l s))"
  "set (trace s) \<subseteq> set (trace (sys_fprintf_stderr f xs s))"
  by (auto simp: sys_fork_def sys_dup2_def sys_execvp_def sys_waitpid_def sys_chdir_def
      sys_pipe_def sys_perror_def sys_fprintf_stderr_def Let_def split_beta)

lemma sys_fork_zero: "fst (sys_fork s) = 0 \<Longrightarrow> Ev_fork 0 \<in> set (trace (snd (sys_fork s)))"
  by (auto simp: sys_fork_def Let_def split_beta split: if_splits)

lemma trace_mono_create_pipes: "set (trace s) \<subseteq> set (trace (snd (create_pipes k acc s)))"
proof (induction k arbitrary: acc s)
  case 0
  show ?case by simp
next
  case (Suc k)
  show ?case
  proof (cases "sys_pipe s")
    case (Pair res s1)
    have m: "set (trace s) \<subseteq> set (trace s1)"
      using trace_mono_calls(6) [of s] Pair by simp
    show ?thesis
    proof (cases res)
      case None
      with Pair m show ?thesis by (auto simp: sys_perror_def)
    next
      case (Some p)
      with Pair m Suc.IH [where acc = "acc @ [p]" and s = s1] show ?thesis by auto
    qed
  qed
qed

lemma trace_mono_wire_stage: "set (trace s) \<subseteq> set (trace (wire_stage ps n i s))"
  using wire_stage_trace [of ps n i s] by auto

lemma trace_mono_redirect_switch:
  "set (trace s) \<subseteq> set (trace (snd (redirect_switch mode fd target fd2 s)))"
  using redirect_switch_result [of mode s fd target fd2]
  by (auto simp: switch_result_def Let_def)

lemma execute_command_returns:
  "returns_unless (program = ''exit'') s (execute_command program argv s)"
  unfolding returns_unless_def execute_command_def
  by (auto simp: sys_fork_def sys_execvp_def sys_waitpid_def sys_chdir_def sys_getenv_HOME_def
      sys_perror_def sys_fprintf_stderr_def sys_signal_def Let_def split_beta
      split: option.splits)


lemma returns_unless_trans:
  "set (trace s) \<subseteq> set (trace s1) \<Longrightarrow> returns_unless e s1 r \<Longrightarrow> returns_unless e s r"
  by (auto simp: returns_unless_def)

lemma returns_unless_child:
  "Ev_fork 0 \<in> set (trace s1) \<Longrightarrow> set (trace s) \<subseteq> set (trace s1) \<Longrightarrow>
     set (trace s1) \<subseteq> set (trace (snd r)) \<Longrightarrow> returns_unless e s r"
  by (auto simp: returns_unless_def)

lemma returns_unless_Returned:
  "set (trace s) \<subseteq> set (trace s1) \<Longrightarrow> returns_unless e s (Returned, s1)"
  by (simp add: returns_unless_def)

lemma run_command_returns:
  "returns_unless (runs_exit nd) s (run_command nd s)"
  "returns_unless (runs_exit first \<or> runs_exit second) s (execute_sequence first second s)"
  "returns_unless False s (execute_pipe parts s)"
  "returns_unless False s (fork_stages pipes n i pids parts s)"
  "returns_unless False s (execute_redirect child fd mode target fd2 s)"
proof (induction nd s and first second s and parts s and pipes n i pids parts s
    and child fd mode target fd2 s
    rule: run_command_execute_sequence_execute_pipe_fork_stages_execute_redirect.induct)
  case (1 s)
  show ?case by (simp add: returns_unless_def)
next
  case (2 program argv s)
  show ?case by (simp add: execute_command_returns)
next
  case (3 first second s)
  then show ?case by simp
next
  case (4 parts s)
  then show ?case by simp
next
  case (5 child fd mode target fd2 s)
  then show ?case by simp
next
  case (6 child s)
  show ?case by (auto simp: returns_unless_def sys_fprintf_stderr_def)
next
  case (7 child s)
  show ?case by (auto simp: returns_unless_def sys_fprintf_stderr_def)
next
  case (8 t s)
  show ?case by (auto simp: returns_unless_def sys_fprintf_stderr_def)
next
  case (9 first second s)
  obtain x y where r: "run_command first s = (x, y)" by (cases "run_command first s")
  from "9.IH"(1) r have one: "returns_unless (runs_exit first) s (x, y)" by simp
  show ?case
  proof (cases "x = Returned")
    case True
    from "9.IH"(2) [OF r [symmetric] True]
    have two: "returns_unless (runs_exit second) y (run_command second y)" .
    from one have "set (trace s) \<subseteq> set (trace y)" by (simp add: returns_unless_def)
    from this two have "returns_unless (runs_exit second) s (run_command second y)"
      by (rule returns_unless_trans)
    then show ?thesis using r True by (auto simp: returns_unless_def)
  next
    case False
    then have "execute_sequence first second s = (x, y)"
      using r by (cases x) simp_all
    with one show ?thesis by (auto simp: returns_unless_def)
  qed
next
  case (10 parts s)
  obtain res y where c: "create_pipes (length parts - 1) [] s = (res, y)"
    by (cases "create_pipes (length parts - 1) [] s")
  have m: "set (trace s) \<subseteq> set (trace y)"
    using trace_mono_create_pipes [of s "length parts - 1" "[]"] c by simp
  show ?case
  proof (cases res)
    case None
    with c m show ?thesis by (simp add: returns_unless_def Let_def)
  next
    case (Some ps)
    from "10.IH" [OF refl c [symmetric] Some]
    have "returns_unless False y (fork_stages ps (length parts) 0 [] parts y)" .
    with m have "returns_unless False s (fork_stages ps (length parts) 0 [] parts y)"
      by (rule returns_unless_trans)
    with c Some show ?thesis by (simp add: Let_def)
  qed
next
  case (11 pipes n i pids s)
  show ?case by (simp add: returns_unless_def)
next
  case (12 pipes n i pids cmd rest s)
  obtain pid y where f: "sys_fork s = (pid, y)" by (cases "sys_fork s")
  have m: "set (trace s) \<subseteq> set (trace y)"
    using trace_mono_calls(1) [of s] f by simp
  consider (fail) "pid < 0" | (child) "pid = 0" | (parent) "\<not> pid < 0" "pid \<noteq> 0"
    by fastforce
  then show ?case
  proof cases
    case fail
    then show ?thesis using f m
      by (auto simp: returns_unless_def sys_perror_def)
  next
    case child
    let ?s4 = "wire_stage pipes n i y"
    have z: "Ev_fork 0 \<in> set (trace y)"
      using sys_fork_zero [of s] f child by simp
    have m4: "set (trace y) \<subseteq> set (trace ?s4)" by (rule trace_mono_wire_stage)
    have nn: "\<not> pid < 0" using child by simp
    have sub: "set (trace ?s4) \<subseteq> set (trace (snd (fork_stages pipes n i pids (cmd # rest) s)))"
    proof (cases cmd)
      case (NODE_COMMAND program argv)
      then show ?thesis using f child trace_mono_calls(3) [of ?s4 program argv]
        by (auto simp: split_beta sys_perror_def Let_def)
    next
      case (NODE_SEQUENCE a b)
      from "12.IH"(1) [OF refl f [symmetric] nn child refl NODE_SEQUENCE]
      have "set (trace ?s4) \<subseteq> set (trace (snd (run_command (Some cmd) ?s4)))"
        by (simp add: returns_unless_def)
      then show ?thesis using f child NODE_SEQUENCE
        by (cases "run_command (Some cmd) ?s4"; cases "fst (run_command (Some cmd) ?s4)")
          (auto simp: Let_def)
    next
      case (NODE_PIPE ps)
      from "12.IH"(2) [OF refl f [symmetric] nn child refl NODE_PIPE]
      have "set (trace ?s4) \<subseteq> set (trace (snd (run_command (Some cmd) ?s4)))"
        by (simp add: returns_unless_def)
      then show ?thesis using f child NODE_PIPE
        by (cases "run_command (Some cmd) ?s4"; cases "fst (run_command (Some cmd) ?s4)")
          (auto simp: Let_def)
    next
      case (NODE_REDIRECT c fd m t fd2)
      from "12.IH"(3) [OF refl f [symmetric] nn child refl NODE_REDIRECT]
      have "set (trace ?s4) \<subseteq> set (trace (snd (run_command (Some cmd) ?s4)))"
        by (simp add: returns_unless_def)
      then show ?thesis using f child NODE_REDIRECT
        by (cases "run_command (Some cmd) ?s4"; cases "fst (run_command (Some cmd) ?s4)")
          (auto simp: Let_def)
    next
      case (NODE_SUBSHELL c)
      then show ?thesis using f child by (auto simp: sys_fprintf_stderr_def Let_def)
    next
      case (NODE_DETACH c)
      then show ?thesis using f child by (auto simp: sys_fprintf_stderr_def Let_def)
    next
      case (NODE_OTHER t)
      then show ?thesis using f child by (auto simp: sys_fprintf_stderr_def Let_def)
    qed
    from z m sub m4 show ?thesis
      by (intro returns_unless_child [where ?s1.0 = y]) auto
  next
    case parent
    from "12.IH"(7) [OF refl f [symmetric] parent]
    have "returns_unless False y (fork_stages pipes n (Suc i) (pids @ [pid]) rest y)" .
    with m have "returns_unless False s (fork_stages pipes n (Suc i) (pids @ [pid]) rest y)"
      by (rule returns_unless_trans)
    then show ?thesis using f parent by simp
  qed
next
  case (13 child fd mode target fd2 s)
  obtain pid y where f: "sys_fork s = (pid, y)" by (cases "sys_fork s")
  have m: "set (trace s) \<subseteq> set (trace y)"
    using trace_mono_calls(1) [of s] f by simp
  consider (fail) "pid < 0" | (child) "pid = 0" | (parent) "\<not> pid < 0" "pid \<noteq> 0"
    by fastforce
  then show ?case
  proof cases
    case fail
    then show ?thesis using f m
      by (auto simp: returns_unless_def sys_perror_def)
  next
    case child
    obtain st y2 where w: "redirect_switch mode fd target fd2 y = (st, y2)"
      by (cases "redirect_switch mode fd target fd2 y")
    have z: "Ev_fork 0 \<in> set (trace y)"
      using sys_fork_zero [of s] f child by simp
    have m2: "set (trace y) \<subseteq> set (trace y2)"
      using trace_mono_redirect_switch [of y mode fd target fd2] w by simp
    have nn: "\<not> pid < 0" using child by simp
    have sub: "set (trace y2) \<subseteq> set (trace (snd (execute_redirect child fd mode target fd2 s)))"
    proof (cases st)
      case (Some status)
      then show ?thesis using f child w by simp
    next
      case None
      from "13.IH" [OF refl f [symmetric] nn child w [symmetric] None]
      have "set (trace y2) \<subseteq> set (trace (snd (run_command child y2)))"
        by (simp add: returns_unless_def)
      then show ?thesis using f child w None
        by (cases "run_command child y2"; cases "fst (run_command child y2)") auto
    qed
    from z m sub m2 show ?thesis
      by (intro returns_unless_child [where ?s1.0 = y]) auto
  next
    case parent
    then show ?thesis using f m trace_mono_calls(4) [of y pid]
      by (auto simp: returns_unless_def split_beta sys_perror_def)
  qed
qed


text \<open>
  C9. When \<^verbatim>\<open>run_command\<close> on the first sub-tree returns, in whatever state, the sequence
  goes on with \<^verbatim>\<open>run_command\<close> on the second sub-tree from that state: nothing of the
  first's result is tested. And it does return, whatever failed inside it (\<^verbatim>\<open>fork\<close>,
  \<^verbatim>\<open>pipe\<close>, \<^verbatim>\<open>waitpid\<close>, \<^verbatim>\<open>chdir\<close>, the commands themselves), as long as the process is
  the one that called the engine and not a child forked on the way, and the first
  sub-tree does not run the \<^verbatim>\<open>exit\<close> built-in in that process.
\<close>

theorem sequence_no_short_circuit:
  "(run_command first s = (Returned, s1) \<longrightarrow>
      run_command (Some (NODE_SEQUENCE first second)) s = run_command second s1)
   \<and> (\<not> runs_exit first \<and> Ev_fork 0 \<notin> set (trace (snd (run_command first s))) \<longrightarrow>
        fst (run_command first s) = Returned
        \<and> run_command (Some (NODE_SEQUENCE first second)) s =
            run_command second (snd (run_command first s)))"
proof -
  have step: "run_command first s = (Returned, s') \<Longrightarrow>
      run_command (Some (NODE_SEQUENCE first second)) s = run_command second s'" for s'
    by simp
  have "fst (run_command first s) = Returned
        \<and> run_command (Some (NODE_SEQUENCE first second)) s =
            run_command second (snd (run_command first s))"
    if a: "\<not> runs_exit first \<and> Ev_fork 0 \<notin> set (trace (snd (run_command first s)))"
  proof -
    from run_command_returns(1) [of first s] a
    have r: "fst (run_command first s) = Returned"
      by (auto simp: returns_unless_def)
    then have "run_command first s = (Returned, snd (run_command first s))"
      by (cases "run_command first s") simp
    from r step [OF this] show ?thesis by (rule conjI)
  qed
  with step show ?thesis by blast
qed

theorem sequence_no_short_circuit_witness:
  "(let first = Some (NODE_COMMAND ''false'' [''false'']);
        second = Some (NODE_COMMAND ''echo'' [''echo'', ''hi'']);
        s = shell_start [- 1, 7, 0] None
    in \<not> runs_exit first
       \<and> Ev_fork 0 \<notin> set (trace (snd (run_command first s)))
       \<and> new_events s (snd (run_command first s)) = [Ev_fork (- 1), Ev_perror ''fork'']
       \<and> fst (run_command first s) = Returned
       \<and> new_events s (snd (run_command (Some (NODE_SEQUENCE first second)) s)) =
           [Ev_fork (- 1), Ev_perror ''fork'', Ev_fork 7, Ev_waitpid 7 7])"
proof -
  let ?s = "shell_start [- 1, 7, 0] None"
  let ?first = "Some (NODE_COMMAND ''false'' [''false''])"
  let ?second = "Some (NODE_COMMAND ''echo'' [''echo'', ''hi''])"
  have a: "\<not> runs_exit ?first \<and> Ev_fork 0 \<notin> set (trace (snd (run_command ?first ?s)))"
    by (simp add: start_defs run_defs Let_def)
  have b: "new_events ?s (snd (run_command ?first ?s)) = [Ev_fork (- 1), Ev_perror ''fork'']"
    by (simp add: start_defs run_defs Let_def new_events_def)
  have c: "new_events ?s (snd (run_command ?second (snd (run_command ?first ?s)))) =
     [Ev_fork (- 1), Ev_perror ''fork'', Ev_fork 7, Ev_waitpid 7 7]"
    by (simp add: start_defs run_defs Let_def new_events_def)
  from sequence_no_short_circuit [of ?first ?s _ ?second] a
  have d: "fst (run_command ?first ?s) = Returned
        \<and> run_command (Some (NODE_SEQUENCE ?first ?second)) ?s =
            run_command ?second (snd (run_command ?first ?s))"
    by blast
  from a b c d show ?thesis by (simp add: Let_def del: run_command.simps)
qed

end
